theory Spec2Isabelle
  imports Complex_Main "HOL-Library.Product_Lexorder" "HOL-Library.Option_ord" "HOL-Library.Word"
begin

section \<open>The sum of absolute differences (PermDist notebook)\<close>

text \<open>
  The notebook's \<^verbatim>\<open>f\<close> runs two nested loops over \<^verbatim>\<open>range(n)\<close> and adds
  \<^verbatim>\<open>numpy.abs(b - a)\<close> to \<^verbatim>\<open>res\<close> whenever \<^verbatim>\<open>b != a\<close>. Each loop is a fold
  over the range, the accumulator \<^verbatim>\<open>res\<close> is threaded through both.
  \<^verbatim>\<open>numpy.abs\<close> turns the Python integer \<^verbatim>\<open>b - a\<close> into a scalar of numpy's
  default integer type, \<^verbatim>\<open>int64\<close>, and from the first addition on \<^verbatim>\<open>res\<close> is
  such a scalar too: its additions wrap around modulo \<open>2^64\<close> (numpy warns and
  goes on). So the accumulator is a 64-bit word, and \<open>sint\<close> reads the number
  that Python shows for it. \<open>numpy_abs\<close> is the absolute value for every
  difference that fits into 64 bits, which covers every loop over \<^verbatim>\<open>range(n)\<close>
  with \<open>n \<le> 2^63\<close>. Where numpy's default integer has 32 bits the same holds
  with that width.
\<close>

definition numpy_abs :: "int \<Rightarrow> 64 word" where
  "numpy_abs x = word_of_int \<bar>x\<bar>"

definition f_inner :: "nat \<Rightarrow> nat \<Rightarrow> 64 word \<Rightarrow> 64 word" where
  "f_inner n a res0 =
     fold (\<lambda>b res. if b \<noteq> a then res + numpy_abs (int b - int a) else res) [0..<n] res0"

definition f :: "nat \<Rightarrow> 64 word" where
  "f n = fold (\<lambda>a res. f_inner n a res) [0..<n] 0"

text \<open>
  The data frame \<^verbatim>\<open>d\<close>: the column \<^verbatim>\<open>n\<close> is \<^verbatim>\<open>range(10)\<close>, the column \<^verbatim>\<open>f\<close>
  holds \<^verbatim>\<open>f(n)\<close> for each of its entries, \<^verbatim>\<open>n2\<close> and \<^verbatim>\<open>n3\<close> are the products
  \<^verbatim>\<open>d['n'] * d['n']\<close> and \<^verbatim>\<open>d['n'] * d['n2']\<close> of \<^verbatim>\<open>int64\<close> columns. The fit
  receives the columns \<^verbatim>\<open>n\<close>, \<^verbatim>\<open>n2\<close>, \<^verbatim>\<open>n3\<close> as its matrix and the column
  \<^verbatim>\<open>f\<close> as its target, both converted to floating point.
\<close>

definition d_n :: "nat list" where
  "d_n = [0..<10]"

definition d_f :: "64 word list" where
  "d_f = map f d_n"

definition d_n2 :: "64 word list" where
  "d_n2 = map (\<lambda>n. of_nat n * of_nat n) d_n"

definition d_n3 :: "64 word list" where
  "d_n3 = map2 (\<lambda>n n2. of_nat n * n2) d_n d_n2"

definition fit_X :: "real list list" where
  "fit_X = map (\<lambda>(n, n2, n3). [real n, real_of_int (sint n2), real_of_int (sint n3)])
             (zip d_n (zip d_n2 d_n3))"

definition fit_y :: "real list" where
  "fit_y = map (\<lambda>v. real_of_int (sint v)) d_f"

text \<open>
  \<^verbatim>\<open>sklearn.linear_model.LinearRegression().fit\<close> is library code working in
  floating point. The model does not compute it: the fitted \<^verbatim>\<open>intercept_\<close> and
  \<^verbatim>\<open>coef_\<close> are arguments of what follows, and all that is used of them is
  that they lie within a tolerance \<open>tol\<close> of an intercept and coefficients that
  minimise the sum of the squared errors of the prediction.
\<close>

definition predict :: "real \<Rightarrow> real list \<Rightarrow> real list \<Rightarrow> real" where
  "predict intercept coef row = intercept + sum_list (map2 (*) coef row)"

definition squared_error :: "real list list \<Rightarrow> real list \<Rightarrow> real \<Rightarrow> real list \<Rightarrow> real" where
  "squared_error X y intercept coef =
     sum_list (map2 (\<lambda>row t. (predict intercept coef row - t)\<^sup>2) X y)"

definition least_squares :: "real list list \<Rightarrow> real list \<Rightarrow> real \<Rightarrow> real list \<Rightarrow> bool" where
  "least_squares X y intercept coef \<longleftrightarrow>
     (\<forall>row \<in> set X. length row = length coef)
     \<and> (\<forall>intercept' coef'. length coef' = length coef
           \<longrightarrow> squared_error X y intercept coef \<le> squared_error X y intercept' coef')"

definition linear_regression_fit ::
  "real \<Rightarrow> real list list \<Rightarrow> real list \<Rightarrow> real \<Rightarrow> real list \<Rightarrow> bool" where
  "linear_regression_fit tol X y intercept coef \<longleftrightarrow>
     (\<exists>b0 c. least_squares X y b0 c \<and> \<bar>intercept - b0\<bar> \<le> tol
        \<and> list_all2 (\<lambda>x x'. \<bar>x - x'\<bar> \<le> tol) coef c)"

text \<open>
  \<^verbatim>\<open>mk_rational\<close> is \<^verbatim>\<open>Fraction(v).limit_denominator(den_limit)\<close>, handed to
  sympy as a \<^verbatim>\<open>Rational\<close>. \<^verbatim>\<open>Fraction(v)\<close> is the exact value of the float;
  \<^verbatim>\<open>limit_denominator\<close> is Python's library and returns a closest fraction
  among those whose denominator is at most the limit, which is all that is used
  of it.
\<close>

definition limit_denominator :: "real \<Rightarrow> nat \<Rightarrow> rat \<Rightarrow> bool" where
  "limit_denominator v max_denominator r \<longleftrightarrow>
     snd (quotient_of r) \<le> int max_denominator
     \<and> (\<forall>r'. snd (quotient_of r') \<le> int max_denominator
           \<longrightarrow> \<bar>v - of_rat r\<bar> \<le> \<bar>v - of_rat r'\<bar>)"

definition den_limit :: nat where
  "den_limit = 1000000"

definition mk_rational :: "real \<Rightarrow> rat \<Rightarrow> bool" where
  "mk_rational v r \<longleftrightarrow> limit_denominator v den_limit r"

text \<open>
  \<^verbatim>\<open>formula\<close> adds the intercept and the terms \<^verbatim>\<open>coef_rational[i] * n ** (i+1)\<close>
  with \<^verbatim>\<open>functools.reduce\<close>, in exact rational arithmetic, and \<^verbatim>\<open>g\<close>
  substitutes a value for \<^verbatim>\<open>n\<close>. Both depend on the rationals that
  \<^verbatim>\<open>mk_rational\<close> made of the fitted values.
\<close>

definition terms :: "rat \<Rightarrow> rat list \<Rightarrow> rat \<Rightarrow> rat list" where
  "terms intercept_rational coef_rational n =
     [intercept_rational]
     @ map (\<lambda>i. coef_rational ! i * n ^ (i + 1)) [0..<length coef_rational]"

definition formula :: "rat \<Rightarrow> rat list \<Rightarrow> rat \<Rightarrow> rat" where
  "formula intercept_rational coef_rational n =
     (case terms intercept_rational coef_rational n of
        t # ts \<Rightarrow> foldl (\<lambda>a b. a + b) t ts
      | [] \<Rightarrow> 0)"

definition g :: "rat \<Rightarrow> rat list \<Rightarrow> nat \<Rightarrow> rat" where
  "g intercept_rational coef_rational n_value = formula intercept_rational coef_rational (of_nat n_value)"

section \<open>Solving for hidden data: the model\<close>

text \<open>
  The R computation works on double-precision vectors; they are modelled as lists
  of reals, so every tolerance of the write-up is met exactly when the
  corresponding equation holds here. A data frame is the list of its rows.
\<close>

type_synonym vec = "real list"

subsection \<open>Vector arithmetic of R\<close>

definition vadd :: "vec \<Rightarrow> vec \<Rightarrow> vec" where
  "vadd a b = map2 (+) a b"

definition smul :: "real \<Rightarrow> vec \<Rightarrow> vec" where
  "smul c a = map ((*) c) a"

definition dot :: "vec \<Rightarrow> vec \<Rightarrow> real" where
  "dot a b = sum_list (map2 (*) a b)"

definition mat_vec :: "vec list \<Rightarrow> vec \<Rightarrow> vec" where
  "mat_vec M a = map (\<lambda>row. dot row a) M"

definition mean :: "vec \<Rightarrow> real" where
  "mean a = sum_list a / real (length a)"

subsection \<open>The example data\<close>

text \<open>
  The keying of the detailed frame: \<open>x1\<close> varies fastest, then \<open>x2\<close>, then
  \<open>y\<close>.
\<close>

definition detailed_frame :: "(nat \<times> nat \<times> bool) list" where
  "detailed_frame =
     [(0, 0, False), (1, 0, False), (0, 1, False), (1, 1, False),
      (0, 0, True), (1, 0, True), (0, 1, True), (1, 1, True)]"

definition sigmoid :: "real \<Rightarrow> real" where
  "sigmoid x = 1 / (1 + exp (- x))"

definition x_distribution :: "real \<Rightarrow> real \<Rightarrow> nat \<times> nat \<times> bool \<Rightarrow> real" where
  "x_distribution pX1 pX2 k =
     (case k of (x1, x2, y) \<Rightarrow>
        (real x1 * pX1 + (1 - real x1) * (1 - pX1))
        * (real x2 * pX2 + (1 - real x2) * (1 - pX2)))"

definition y_linear :: "real \<Rightarrow> real \<Rightarrow> real \<Rightarrow> nat \<times> nat \<times> bool \<Rightarrow> real" where
  "y_linear c0 b1 b2 k = (case k of (x1, x2, y) \<Rightarrow> c0 + b1 * real x1 + b2 * real x2)"

definition p_observed_outcome :: "real \<Rightarrow> real \<Rightarrow> real \<Rightarrow> nat \<times> nat \<times> bool \<Rightarrow> real" where
  "p_observed_outcome c0 b1 b2 k =
     (case k of (x1, x2, y) \<Rightarrow>
        if y then sigmoid (y_linear c0 b1 b2 k) else 1 - sigmoid (y_linear c0 b1 b2 k))"

definition proportion :: "real \<Rightarrow> real \<Rightarrow> real \<Rightarrow> real \<Rightarrow> real \<Rightarrow> vec" where
  "proportion pX1 pX2 c0 b1 b2 =
     map (\<lambda>k. x_distribution pX1 pX2 k * p_observed_outcome c0 b1 b2 k) detailed_frame"

definition test_vec :: vec where
  "test_vec =
     map (\<lambda>k. case k of (x1, x2, y) \<Rightarrow> (- 1) ^ x1 * (- 1) ^ x2 * (- 1) ^ (if y then 1 else 0 :: nat))
       detailed_frame"

definition p_vec :: "vec \<Rightarrow> vec" where
  "p_vec p = map2 (*) test_vec (map ln p)"

subsection \<open>The margins the experimenters observe\<close>

text \<open>
  The linear operator of the write-up, row by row as its table prints it. A key
  of the margin frame holds \<open>None\<close> where the table shows an asterisk.
\<close>

definition margin_transform :: "vec list" where
  "margin_transform =
     [[1, 0, 1, 0, 0, 0, 0, 0],
      [0, 1, 0, 1, 0, 0, 0, 0],
      [0, 0, 0, 0, 1, 0, 1, 0],
      [0, 0, 0, 0, 0, 1, 0, 1],
      [1, 1, 0, 0, 0, 0, 0, 0],
      [0, 0, 1, 1, 0, 0, 0, 0],
      [0, 0, 0, 0, 1, 1, 0, 0],
      [0, 0, 0, 0, 0, 0, 1, 1],
      [1, 0, 0, 0, 1, 0, 0, 0],
      [0, 1, 0, 0, 0, 1, 0, 0],
      [0, 0, 1, 0, 0, 0, 1, 0],
      [0, 0, 0, 1, 0, 0, 0, 1]]"

type_synonym margin_key = "nat option \<times> nat option \<times> bool option"

type_synonym margin_rows = "(margin_key \<times> real) list"

definition margin_keys :: "margin_key list" where
  "margin_keys =
     [(Some 0, None, Some False), (Some 1, None, Some False),
      (Some 0, None, Some True), (Some 1, None, Some True),
      (None, Some 0, Some False), (None, Some 1, Some False),
      (None, Some 0, Some True), (None, Some 1, Some True),
      (Some 0, Some 0, None), (Some 1, Some 0, None),
      (Some 0, Some 1, None), (Some 1, Some 1, None)]"

definition margin_frame :: "vec \<Rightarrow> margin_rows" where
  "margin_frame p = zip margin_keys (mat_vec margin_transform p)"

definition d1 :: "margin_rows \<Rightarrow> margin_rows" where
  "d1 mf = filter (\<lambda>r. case r of ((x1, x2, y), p) \<Rightarrow> x2 = None) mf"

definition d2 :: "margin_rows \<Rightarrow> margin_rows" where
  "d2 mf = filter (\<lambda>r. case r of ((x1, x2, y), p) \<Rightarrow> x1 = None) mf"

subsection \<open>Estimating the joint distribution of x1 and x2\<close>

text \<open>
  \<^verbatim>\<open>aggregate(proportion ~ x1, data = d1, sum)\<close> groups the rows by their level
  and sums each group, the groups in increasing order of the level.
\<close>

definition aggregate_sum :: "(nat option \<times> real) list \<Rightarrow> (nat option \<times> real) list" where
  "aggregate_sum rows =
     map (\<lambda>l. (l, sum_list (map snd (filter (\<lambda>r. fst r = l) rows))))
       (sort (remdups (map fst rows)))"

definition d1a :: "margin_rows \<Rightarrow> (nat option \<times> real) list" where
  "d1a d = aggregate_sum (map (\<lambda>r. case r of ((x1, x2, y), p) \<Rightarrow> (x1, p)) d)"

definition d2a :: "margin_rows \<Rightarrow> (nat option \<times> real) list" where
  "d2a d = aggregate_sum (map (\<lambda>r. case r of ((x1, x2, y), p) \<Rightarrow> (x2, p)) d)"

text \<open>
  \<^verbatim>\<open>merge(d1a, d2a, by = c())\<close> is the Cartesian product of the two frames, the
  rows of the first varying fastest; the product column is then computed and the
  rows are ordered by \<open>x2\<close>, then \<open>x1\<close>.
\<close>

type_synonym level_rows = "(nat option \<times> real) list"

type_synonym joint_rows = "((nat option \<times> nat option) \<times> real) list"

definition merge_cross :: "level_rows \<Rightarrow> level_rows \<Rightarrow> ((nat option \<times> nat option) \<times> real \<times> real) list" where
  "merge_cross a b =
     concat (map (\<lambda>rb. map (\<lambda>ra. ((fst ra, fst rb), snd ra, snd rb)) a) b)"

definition dxe :: "level_rows \<Rightarrow> level_rows \<Rightarrow> joint_rows" where
  "dxe a b =
     sort_key (\<lambda>r. (snd (fst r), fst (fst r)))
       (map (\<lambda>r. case r of (k, px, py) \<Rightarrow> (k, px * py)) (merge_cross a b))"

definition estimated_proportions :: "margin_rows \<Rightarrow> margin_rows \<Rightarrow> joint_rows \<Rightarrow> vec" where
  "estimated_proportions da db dx = map snd da @ map snd db @ map snd dx"

text \<open>
  The path of the write-up from a detailed distribution to the pooled estimate:
  the margin frame, the views \<^verbatim>\<open>d1\<close> and \<^verbatim>\<open>d2\<close> of the two experimenters, and
  the joint table of \<open>x1\<close> and \<open>x2\<close> estimated from their marginals.
\<close>

definition pooled_estimate :: "vec \<Rightarrow> vec" where
  "pooled_estimate p =
     (let mf = margin_frame p; da = d1 mf; db = d2 mf
      in estimated_proportions da db (dxe (d1a da) (d2a db)))"

subsection \<open>Solving for the full joint distribution\<close>

text \<open>
  \<^verbatim>\<open>v <- solve(qr(margin_transform, LAPACK = TRUE), estimated_proportions)\<close> calls
  the QR routines of R's library. The model does not compute the factorisation:
  the returned vector is an argument of everything that follows, and all that
  is used of it is that it solves the system in the least-squares sense, which
  is stated through the normal equations.
\<close>

definition qr_solution :: "vec list \<Rightarrow> vec \<Rightarrow> vec \<Rightarrow> bool" where
  "qr_solution M b v \<longleftrightarrow>
     (\<forall>row \<in> set M. length row = length v)
     \<and> mat_vec (transpose M) (mat_vec M v) = mat_vec (transpose M) b"

definition residual_norm :: "vec list \<Rightarrow> vec \<Rightarrow> vec \<Rightarrow> real" where
  "residual_norm M b v = sqrt (sum_list (map (\<lambda>r. r\<^sup>2) (map2 (-) (mat_vec M v) b)))"

text \<open>
  \<^verbatim>\<open>MASS::Null(t(margin_transform))\<close> is library code too; its result \<open>raw\<close> is a
  non-zero vector that \<^verbatim>\<open>margin_transform\<close> sends to zero. The write-up then
  rescales it: \<^verbatim>\<open>ns / (mean(abs(ns)) * ifelse(ns[[1]] >= 0, 1, -1))\<close>. Reading
  \<^verbatim>\<open>ns[[1]]\<close> of an empty vector is an error in R.
\<close>

definition null_result :: "vec list \<Rightarrow> vec \<Rightarrow> bool" where
  "null_result M raw \<longleftrightarrow>
     (\<forall>row \<in> set M. length row = length raw)
     \<and> mat_vec M raw = replicate (length M) 0
     \<and> (\<exists>x \<in> set raw. x \<noteq> 0)"

datatype r_error = SubscriptOutOfBounds

definition ns :: "vec \<Rightarrow> r_error + vec" where
  "ns raw =
     (case raw of
        [] \<Rightarrow> Inl SubscriptOutOfBounds
      | first # _ \<Rightarrow>
          Inr (map (\<lambda>x. x / (mean (map abs raw) * (if first \<ge> 0 then 1 else - 1))) raw))"

text \<open>
  All solutions are of the form \<^verbatim>\<open>v + z * ns\<close> for scalars \<open>z\<close>.
\<close>

definition solution_family :: "vec \<Rightarrow> vec \<Rightarrow> real \<Rightarrow> vec" where
  "solution_family v n z = vadd v (smul z n)"

text \<open>
  The failures the spec names for the engine. The write-up itself raises none
  of them.
\<close>

datatype engine_error =
  InconsistentObservations | InfeasibleReconstruction | DegenerateNullSpace | OptimizerDidNotConverge

text \<open>
  Modelled from the spec: the bounds on \<open>z\<close> that the entries contribute (the
  write-up does not show this computation). Every entry with \<open>ns_k > 0\<close> gives
  the lower bound \<open>- v0_k / ns_k\<close>, every entry with \<open>ns_k < 0\<close> the upper bound
  \<open>- v0_k / ns_k\<close>. A side on which no entry gives a bound is \<open>None\<close>.
\<close>

definition lower_bounds :: "vec \<Rightarrow> vec \<Rightarrow> real list" where
  "lower_bounds v0 n = map (\<lambda>(v, k). - v / k) (filter (\<lambda>(v, k). k > 0) (zip v0 n))"

definition upper_bounds :: "vec \<Rightarrow> vec \<Rightarrow> real list" where
  "upper_bounds v0 n = map (\<lambda>(v, k). - v / k) (filter (\<lambda>(v, k). k < 0) (zip v0 n))"

definition greatest :: "real list \<Rightarrow> real option" where
  "greatest bs = (if bs = [] then None else Some (Max (set bs)))"

definition least :: "real list \<Rightarrow> real option" where
  "least bs = (if bs = [] then None else Some (Min (set bs)))"

definition interval_empty :: "real option \<Rightarrow> real option \<Rightarrow> bool" where
  "interval_empty lo hi = (case (lo, hi) of (Some a, Some b) \<Rightarrow> a > b | _ \<Rightarrow> False)"

text \<open>
  Modelled from the spec: the computation of the interval of \<open>z\<close> (the write-up
  only says that it solves for the interval and prints the two extreme
  solutions \<^verbatim>\<open>recovered_1\<close> and \<^verbatim>\<open>recovered_2\<close>). Following the spec's
  \<^verbatim>\<open>feasible_z_interval\<close>: the interval runs from the greatest lower bound to
  the least upper bound, an entry with \<open>ns_k = 0\<close> gives no bound but must not be
  negative, and the interval must not be empty; otherwise the reconstruction is
  infeasible. The tolerance of the comparisons is zero on exact reals.
\<close>

definition feasible_z_interval :: "vec \<Rightarrow> vec \<Rightarrow> engine_error + (real option \<times> real option)" where
  "feasible_z_interval v0 n =
     (if list_ex (\<lambda>(v, k). k = 0 \<and> v < 0) (zip v0 n) then Inl InfeasibleReconstruction
      else
        let z_lo = greatest (lower_bounds v0 n); z_hi = least (upper_bounds v0 n)
        in if interval_empty z_lo z_hi then Inl InfeasibleReconstruction else Inr (z_lo, z_hi))"

subsection \<open>Picking a point estimate\<close>

definition entropy :: "vec \<Rightarrow> real" where
  "entropy v =
     (let v1 = filter (\<lambda>x. x > 0) v;
          v2 = map (\<lambda>x. x / sum_list v1) v1
      in - sum_list (map (\<lambda>x. x * log 2 x) v2))"

text \<open>
  The objective handed to \<^verbatim>\<open>optimize\<close> and the resulting \<^verbatim>\<open>maxent_dist\<close> are
  the mix \<^verbatim>\<open>z * recovered_1 + (1 - z) * recovered_2\<close>. \<^verbatim>\<open>optimize\<close> itself is
  R's library; with \<^verbatim>\<open>maximum = TRUE\<close> it returns a point of the interval at
  which the objective is greatest, and that is all that is used of it.
\<close>

definition maxent_dist :: "real \<Rightarrow> vec \<Rightarrow> vec \<Rightarrow> vec" where
  "maxent_dist z recovered_1 recovered_2 = vadd (smul z recovered_1) (smul (1 - z) recovered_2)"

definition optimize_maximum :: "(real \<Rightarrow> real) \<Rightarrow> real \<Rightarrow> real \<Rightarrow> real \<Rightarrow> bool" where
  "optimize_maximum objective lo hi z \<longleftrightarrow>
     lo \<le> z \<and> z \<le> hi \<and> (\<forall>z'. lo \<le> z' \<and> z' \<le> hi \<longrightarrow> objective z' \<le> objective z)"

subsection \<open>The steps put together\<close>


subsection \<open>The worked example as printed\<close>

text \<open>
  The views of the two experimenters with the proportions the write-up prints
  (seven decimals), and the maximum-entropy vector of the spec's concrete
  scenario (five decimals), in the cell order of the detailed frame.
\<close>

definition d1_shown :: margin_rows where
  "d1_shown =
     [((Some 0, None, Some False), 6100538 / 10000000),
      ((Some 1, None, Some False), 2386123 / 10000000),
      ((Some 0, None, Some True), 899462 / 10000000),
      ((Some 1, None, Some True), 613877 / 10000000)]"

definition d2_shown :: margin_rows where
  "d2_shown =
     [((None, Some 0, Some False), 517616 / 10000000),
      ((None, Some 1, Some False), 7969046 / 10000000),
      ((None, Some 0, Some True), 1482384 / 10000000),
      ((None, Some 1, Some True), 30954 / 10000000)]"

definition maxent_shown :: vec where
  "maxent_shown =
     [5034 / 100000, 142 / 100000, 55971 / 100000, 23719 / 100000,
      8966 / 100000, 5858 / 100000, 29 / 100000, 281 / 100000]"

definition within_tolerance :: "real \<Rightarrow> vec \<Rightarrow> vec \<Rightarrow> bool" where
  "within_tolerance tol a b \<longleftrightarrow> list_all2 (\<lambda>x y. \<bar>x - y\<bar> < tol) a b"

subsection \<open>Auxiliary notions for the proofs\<close>

text \<open>
  Not part of the write-up: an 8-vector is pinned when it has a zero entry at a
  cell where \<^verbatim>\<open>ns\<close> is \<open>+1\<close> and a zero entry at a cell where \<^verbatim>\<open>ns\<close> is
  \<open>-1\<close>. A non-negative pinned vector is the only non-negative point of its
  solution family.
\<close>

definition pinned :: "vec \<Rightarrow> bool" where
  "pinned p \<longleftrightarrow>
     (p ! 0 = 0 \<or> p ! 3 = 0 \<or> p ! 5 = 0 \<or> p ! 6 = 0)
     \<and> (p ! 1 = 0 \<or> p ! 2 = 0 \<or> p ! 4 = 0 \<or> p ! 7 = 0)"



text \<open>
  The summand of the entropy, with the entries that \<^verbatim>\<open>entropy\<close> drops counted
  as zero.
\<close>

definition xlog2 :: "real \<Rightarrow> real" where
  "xlog2 x = (if x > 0 then x * log 2 x else 0)"

text \<open>
  For the printed example: one least-squares solution of its system (found
  by hand, checked against the normal equations below), and the mix of its two
  extreme solutions written out entry by entry.
\<close>

definition shown_solution :: vec where
  "shown_solution =
     [7099293 / 80000000, - 2958367 / 80000000, 41705013 / 80000000, 22047353 / 80000000,
      4100707 / 80000000, 7758367 / 80000000, 3094987 / 80000000, - 2847353 / 80000000]"

definition shown_mix :: "real \<Rightarrow> vec" where
  "shown_mix z =
     [(2070463 - 68310 * z) / 40000000, (68310 * z) / 40000000,
      (22331690 + 68310 * z) / 40000000, (9544493 - 68310 * z) / 40000000,
      (3529537 + 68310 * z) / 40000000, (2400000 - 68310 * z) / 40000000,
      (68310 - 68310 * z) / 40000000, (55507 + 68310 * z) / 40000000]"



text \<open>
  Not part of the notebook: the loops of \<^verbatim>\<open>f\<close> on unbounded integers, to say
  what the 64-bit accumulator holds.
\<close>

definition f_inner_exact :: "nat \<Rightarrow> nat \<Rightarrow> int \<Rightarrow> int" where
  "f_inner_exact n a res0 =
     fold (\<lambda>b res. if b \<noteq> a then res + \<bar>int b - int a\<bar> else res) [0..<n] res0"

definition f_exact :: "nat \<Rightarrow> int" where
  "f_exact n = fold (\<lambda>a res. f_inner_exact n a res) [0..<n] 0"


section \<open>Properties of the sum of absolute differences\<close>

subsection \<open>The loops as sums\<close>

lemma f_inner_word: "f_inner n a (word_of_int r) = word_of_int (f_inner_exact n a r)"
proof -
  have "fold (\<lambda>b res. if b \<noteq> a then res + numpy_abs (int b - int a) else res) xs (word_of_int r)
      = word_of_int (fold (\<lambda>b res. if b \<noteq> a then res + \<bar>int b - int a\<bar> else res) xs r)" for xs
  proof (induction xs arbitrary: r)
    case Nil
    show ?case by simp
  next
    case (Cons x xs)
    have "word_of_int r + numpy_abs (int x - int a) = word_of_int (r + \<bar>int x - int a\<bar>)"
      by (simp add: numpy_abs_def)
    then show ?case
      using Cons.IH [of r] Cons.IH [of "r + \<bar>int x - int a\<bar>"] by (simp del: of_int_add)
  qed
  then show ?thesis by (simp add: f_inner_def f_inner_exact_def)
qed

lemma f_word: "f n = word_of_int (f_exact n)"
proof -
  have "fold (\<lambda>a res. f_inner n a res) xs (word_of_int r)
      = word_of_int (fold (\<lambda>a res. f_inner_exact n a res) xs r)" for xs r
    by (induction xs arbitrary: r) (simp_all add: f_inner_word)
  from this [of "[0..<n]" 0] show ?thesis by (simp add: f_def f_exact_def)
qed

lemma f_inner_sum:
  "f_inner_exact n a res0 = res0 + (\<Sum>b<n. \<bar>int b - int a\<bar>)"
proof -
  have "fold (\<lambda>b res. if b \<noteq> a then res + \<bar>int b - int a\<bar> else res) [0..<m] res0
        = res0 + (\<Sum>b<m. \<bar>int b - int a\<bar>)" for m
    by (induction m) auto
  then show ?thesis by (simp add: f_inner_exact_def)
qed

lemma f_sum: "f_exact n = (\<Sum>a<n. \<Sum>b<n. \<bar>int b - int a\<bar>)"
proof -
  have "fold (\<lambda>a res. f_inner_exact n a res) [0..<m] r0
        = r0 + (\<Sum>a<m. \<Sum>b<n. \<bar>int b - int a\<bar>)" for m r0
    by (induction m) (simp_all add: f_inner_sum)
  from this [of n 0] show ?thesis by (simp add: f_exact_def)
qed

lemma sum_row_below: "(\<Sum>b<n. \<bar>int b - int n\<bar>) = (\<Sum>b<n. int n - int b)"
  by (rule sum.cong) auto

lemma sum_col_below: "(\<Sum>a<n. \<bar>int n - int a\<bar>) = (\<Sum>a<n. int n - int a)"
  by (rule sum.cong) auto

lemma two_sum_gap: "2 * (\<Sum>b<n. int n - int b) = int n * (int n + 1)"
proof -
  have "(\<Sum>b<m. int n - int b) * 2 = int m * (2 * int n - int m + 1)" for m
    by (induction m) (simp_all add: algebra_simps)
  from this [of n] show ?thesis by (simp add: algebra_simps)
qed

lemma f_Suc: "f_exact (Suc n) = f_exact n + int n * (int n + 1)"
proof -
  have "f_exact (Suc n) = (\<Sum>a<n. (\<Sum>b<n. \<bar>int b - int a\<bar>) + \<bar>int n - int a\<bar>)
                    + (\<Sum>b<n. \<bar>int b - int n\<bar>)"
    by (simp add: f_sum)
  also have "\<dots> = f_exact n + (\<Sum>a<n. \<bar>int n - int a\<bar>) + (\<Sum>b<n. \<bar>int b - int n\<bar>)"
    by (simp add: f_sum sum.distrib)
  also have "\<dots> = f_exact n + 2 * (\<Sum>b<n. int n - int b)"
    by (simp add: sum_row_below sum_col_below)
  finally show ?thesis by (simp add: two_sum_gap)
qed

lemma three_f: "3 * f_exact n = int n ^ 3 - int n"
proof (induction n)
  case 0
  show ?case by (simp add: f_exact_def)
next
  case (Suc n)
  have "3 * f_exact (Suc n) = 3 * f_exact n + 3 * (int n * (int n + 1))"
    by (simp add: f_Suc algebra_simps)
  also have "\<dots> = int (Suc n) ^ 3 - int (Suc n)"
    using Suc.IH by (simp add: power3_eq_cube algebra_simps)
  finally show ?case .
qed

lemma f_exact_value: "f_exact n = (int n ^ 3 - int n) div 3"
  using three_f [of n] by simp

lemma f_exact_mono: "m \<le> n \<Longrightarrow> f_exact m \<le> f_exact n"
  by (rule lift_Suc_mono_le) (simp_all add: f_Suc)

lemma f_exact_nonneg: "0 \<le> f_exact n"
  using f_exact_mono [of 0 n] by (simp add: f_exact_def)

lemma f_in_range:
  assumes "m \<le> 3024616"
  shows "sint (f m) = f_exact m"
proof -
  have "f_exact m \<le> f_exact 3024616" using assms by (rule f_exact_mono)
  also have "\<dots> = 9223366814367850760" by (simp add: f_exact_value)
  finally have "f_exact m < 2 ^ 63" by simp
  moreover have "- (2 ^ 63) \<le> f_exact m" using f_exact_nonneg [of m] by simp
  ultimately show ?thesis
    by (simp add: f_word signed_of_int signed_take_bit_int_eq_self)
qed

lemma f_overflow: "sint (f 3024617) = - 9223368111036728784"
  by (simp add: f_word f_exact_value)


subsection \<open>The least-squares fit of the notebook\<close>

lemma d_n_value: "d_n = [0, 1, 2, 3, 4, 5, 6, 7, 8, 9]"
  by (simp add: d_n_def upt_rec)

lemma fit_X_value:
  "fit_X = [[0, 0, 0], [1, 1, 1], [2, 4, 8], [3, 9, 27], [4, 16, 64], [5, 25, 125],
            [6, 36, 216], [7, 49, 343], [8, 64, 512], [9, 81, 729]]"
  by (simp add: fit_X_def d_n2_def d_n3_def d_n_value)

lemma f_in_range_real:
  assumes "m \<le> 3024616"
  shows "(signed (f m) :: real) = real_of_int (f_exact m)"
proof -
  have "(signed (f m) :: real) = real_of_int (sint (f m))" by simp
  also have "\<dots> = real_of_int (f_exact m)" by (simp only: f_in_range [OF assms])
  finally show ?thesis .
qed

lemma fit_y_value: "fit_y = [0, 0, 2, 8, 20, 40, 70, 112, 168, 240]"
  by (simp add: fit_y_def d_f_def d_n_value f_in_range_real f_exact_value)

lemma length3_cases:
  assumes "length (c :: 'a list) = 3"
  obtains c1 c2 c3 where "c = [c1, c2, c3]"
proof -
  from assms obtain c1 w1 where "c = c1 # w1" "length w1 = 2" by (cases c) auto
  moreover then obtain c2 w2 where "w1 = c2 # w2" "length w2 = 1" by (cases w1) auto
  moreover then obtain c3 where "w2 = [c3]" by (cases w2) auto
  ultimately show ?thesis using that by blast
qed

lemma squared_error_nonneg: "0 \<le> squared_error X y b0 c"
  unfolding squared_error_def by (rule sum_list_nonneg) auto

lemma exact_fit: "least_squares fit_X fit_y 0 [- 1 / 3, 0, 1 / 3]"
proof -
  have "squared_error fit_X fit_y 0 [- 1 / 3, 0, 1 / 3] = 0"
    by (simp add: squared_error_def predict_def fit_X_value fit_y_value)
  then show ?thesis
    by (simp add: least_squares_def squared_error_nonneg) (simp add: fit_X_value)
qed

lemma exact_fit_unique:
  assumes "least_squares fit_X fit_y b0 c"
  shows "b0 = 0" and "c = [- 1 / 3, 0, 1 / 3]"
proof -
  from assms have "length c = 3" by (simp add: least_squares_def fit_X_value)
  then obtain c1 c2 c3 where c: "c = [c1, c2, c3]" by (rule length3_cases)
  from assms have "squared_error fit_X fit_y b0 c \<le> squared_error fit_X fit_y 0 [- 1 / 3, 0, 1 / 3]"
    by (simp add: least_squares_def c)
  also have "\<dots> = 0"
    by (simp add: squared_error_def predict_def fit_X_value fit_y_value)
  finally have le: "squared_error fit_X fit_y b0 c \<le> 0" .
  define e0 where "e0 = b0"
  define e1 where "e1 = b0 + (c1 + (c2 + c3))"
  define e2 where "e2 = b0 + (c1 * 2 + (c2 * 4 + c3 * 8)) - 2"
  define e3 where "e3 = b0 + (c1 * 3 + (c2 * 9 + c3 * 27)) - 8"
  define rest where "rest = (b0 + (c1 * 4 + (c2 * 16 + c3 * 64)) - 20)\<^sup>2
      + ((b0 + (c1 * 5 + (c2 * 25 + c3 * 125)) - 40)\<^sup>2
      + ((b0 + (c1 * 6 + (c2 * 36 + c3 * 216)) - 70)\<^sup>2
      + ((b0 + (c1 * 7 + (c2 * 49 + c3 * 343)) - 112)\<^sup>2
      + ((b0 + (c1 * 8 + (c2 * 64 + c3 * 512)) - 168)\<^sup>2
      + (b0 + (c1 * 9 + (c2 * 81 + c3 * 729)) - 240)\<^sup>2))))"
  have "squared_error fit_X fit_y b0 c = e0\<^sup>2 + (e1\<^sup>2 + (e2\<^sup>2 + (e3\<^sup>2 + rest)))"
    by (simp add: squared_error_def predict_def fit_X_value fit_y_value c
        e0_def e1_def e2_def e3_def rest_def)
  moreover have "0 \<le> rest" by (simp add: rest_def)
  moreover have "0 \<le> e0\<^sup>2" "0 \<le> e1\<^sup>2" "0 \<le> e2\<^sup>2" "0 \<le> e3\<^sup>2" by simp_all
  ultimately have "e0\<^sup>2 = 0" "e1\<^sup>2 = 0" "e2\<^sup>2 = 0" "e3\<^sup>2 = 0"
    using le by linarith+
  then have "e0 = 0" "e1 = 0" "e2 = 0" "e3 = 0" by simp_all
  then have "b0 = 0 \<and> c1 = - 1 / 3 \<and> c2 = 0 \<and> c3 = 1 / 3"
    unfolding e0_def e1_def e2_def e3_def by linarith
  then show "b0 = 0" and "c = [- 1 / 3, 0, 1 / 3]" by (simp_all add: c)
qed


subsection \<open>Closest fractions with a bounded denominator\<close>

lemma rat_gap:
  fixes p q a b D :: int
  assumes "0 < q" "0 < b" "b \<le> D" "p * b \<noteq> a * q"
  shows "1 / (real_of_int q * real_of_int D)
     \<le> \<bar>real_of_int p / real_of_int q - real_of_int a / real_of_int b\<bar>"
proof -
  define N where "N = real_of_int (p * b - a * q)"
  define w where "w = real_of_int q * real_of_int b"
  have w: "0 < w" using assms(1,2) by (simp add: w_def)
  have "real_of_int p / real_of_int q - real_of_int a / real_of_int b = N / w"
    using assms(1,2) by (simp add: N_def w_def diff_frac_eq)
  then have "\<bar>real_of_int p / real_of_int q - real_of_int a / real_of_int b\<bar> = \<bar>N\<bar> / w"
    using w by (simp only: abs_div_pos)
  moreover have "1 \<le> \<bar>p * b - a * q\<bar>" using assms(4) by simp
  then have "1 \<le> \<bar>N\<bar>" unfolding N_def by (simp only: flip: of_int_abs)
  then have "1 / w \<le> \<bar>N\<bar> / w" using w by (simp add: divide_right_mono)
  moreover have "real_of_int q * real_of_int b \<le> real_of_int q * real_of_int D"
    using assms(1,3) by simp
  then have "1 / (real_of_int q * real_of_int D) \<le> 1 / w"
    unfolding w_def using assms(1,2) by (intro divide_left_mono) simp_all
  ultimately show ?thesis by linarith
qed

lemma limit_denominator_near:
  fixes v :: real and s r :: rat
  assumes s: "quotient_of s = (p, q)" and q: "q \<le> int D"
    and close: "\<bar>v - of_rat s\<bar> < 1 / (2 * (real_of_int q * real D))"
  shows "limit_denominator v D r \<longleftrightarrow> r = s"
proof -
  have qpos: "0 < q" using s by (rule quotient_of_denom_pos)
  have sv: "s = of_int p / of_int q" using s by (rule quotient_of_div)
  have far: "\<bar>v - of_rat s\<bar> < \<bar>v - of_rat r'\<bar>"
    if "snd (quotient_of r') \<le> int D" and "r' \<noteq> s" for r'
  proof -
    obtain a b where r': "quotient_of r' = (a, b)" by (cases "quotient_of r'")
    then have bpos: "0 < b" by (rule quotient_of_denom_pos)
    have rv: "r' = of_int a / of_int b" using r' by (rule quotient_of_div)
    from that(1) have bD: "b \<le> int D" by (simp add: r')
    have "p * b \<noteq> a * q"
    proof
      assume "p * b = a * q"
      then have "(of_int p :: rat) * of_int b = of_int a * of_int q"
        by (metis of_int_mult)
      with qpos bpos have "s = r'" by (simp add: sv rv field_simps)
      with that(2) show False by simp
    qed
    from rat_gap [OF qpos bpos bD this]
    have "1 / (real_of_int q * real D) \<le> \<bar>of_rat s - of_rat r'\<bar>"
      by (simp add: sv rv of_rat_divide)
    moreover have "1 / (real_of_int q * real D) = 2 * (1 / (2 * (real_of_int q * real D)))"
      by simp
    ultimately show ?thesis using close by linarith
  qed
  show ?thesis
  proof
    assume ld: "limit_denominator v D r"
    show "r = s"
    proof (rule ccontr)
      assume "r \<noteq> s"
      moreover from ld have "snd (quotient_of r) \<le> int D" by (simp add: limit_denominator_def)
      ultimately have "\<bar>v - of_rat s\<bar> < \<bar>v - of_rat r\<bar>" using far by blast
      moreover from ld q have "\<bar>v - of_rat r\<bar> \<le> \<bar>v - of_rat s\<bar>"
        by (simp add: limit_denominator_def s)
      ultimately show False by simp
    qed
  next
    assume "r = s"
    moreover have "\<bar>v - of_rat s\<bar> \<le> \<bar>v - of_rat r'\<bar>" if "snd (quotient_of r') \<le> int D" for r'
      using far [OF that] by (cases "r' = s") auto
    ultimately show "limit_denominator v D r"
      using q by (simp add: limit_denominator_def s)
  qed
qed

lemma quotient_third: "quotient_of (1 / 3) = (1, 3)" "quotient_of (- 1 / 3) = (- 1, 3)"
  "quotient_of 0 = (0, 1)"
proof -
  have a: "(1 / 3 :: rat) = Fract 1 3" and b: "(- 1 / 3 :: rat) = Fract (- 1) 3"
    by (simp_all add: Fract_of_int_quotient)
  have "coprime (1::int) 3" "coprime (- 1 :: int) 3" by simp_all
  then have "Rat.normalize (1, 3) = (1, 3)" "Rat.normalize (- 1, 3) = (- 1, 3)"
    by (simp_all add: Rat.normalize_stable)
  then show "quotient_of (1 / 3) = (1, 3)" "quotient_of (- 1 / 3) = (- 1, 3)"
    unfolding a b by (simp_all only: quotient_of_Fract)
  show "quotient_of 0 = (0, 1)" by simp
qed

lemma mk_rational_zero:
  assumes "\<bar>v\<bar> < 1 / 2000000"
  shows "mk_rational v r \<longleftrightarrow> r = 0"
  unfolding mk_rational_def den_limit_def
  using assms by (intro limit_denominator_near [OF quotient_third(3)]) simp_all

lemma mk_rational_third:
  assumes "\<bar>v - 1 / 3\<bar> < 1 / 6000000"
  shows "mk_rational v r \<longleftrightarrow> r = 1 / 3"
  unfolding mk_rational_def den_limit_def
  using assms by (intro limit_denominator_near [OF quotient_third(1)]) (simp_all add: of_rat_divide)

lemma mk_rational_minus_third:
  assumes "\<bar>v + 1 / 3\<bar> < 1 / 6000000"
  shows "mk_rational v r \<longleftrightarrow> r = - 1 / 3"
  unfolding mk_rational_def den_limit_def
  using assms by (intro limit_denominator_near [OF quotient_third(2)]) (simp_all add: of_rat_divide of_rat_minus)

lemma g_closed: "g 0 [- 1 / 3, 0, 1 / 3] n = (of_nat n) ^ 3 / 3 - of_nat n / 3"
  by (simp add: g_def formula_def terms_def numeral_3_eq_3)


subsection \<open>The closed form\<close>

lemma list_all2_three:
  assumes "list_all2 P xs [a, b, c]"
  obtains x1 x2 x3 where "xs = [x1, x2, x3]" "P x1 a" "P x2 b" "P x3 c"
  using assms by (auto simp: list_all2_Cons2)

lemma list_all2_three':
  assumes "list_all2 P [a, b, c] ys"
  obtains y1 y2 y3 where "ys = [y1, y2, y3]" "P a y1" "P b y2" "P c y3"
  using assms by (auto simp: list_all2_Cons1)

lemma fitted_rationals:
  assumes tol: "tol < 1 / 6000000"
    and fit: "linear_regression_fit tol fit_X fit_y intercept coef"
    and ir: "mk_rational intercept intercept_rational"
    and cr: "list_all2 mk_rational coef coef_rational"
  shows "intercept_rational = 0" and "coef_rational = [- 1 / 3, 0, 1 / 3]"
proof -
  from fit obtain b0 c where ls: "least_squares fit_X fit_y b0 c"
    and b0: "\<bar>intercept - b0\<bar> \<le> tol"
    and c: "list_all2 (\<lambda>x x'. \<bar>x - x'\<bar> \<le> tol) coef c"
    unfolding linear_regression_fit_def by blast
  from exact_fit_unique [OF ls] have e: "b0 = 0" "c = [- 1 / 3, 0, 1 / 3]" .
  from b0 tol have "\<bar>intercept\<bar> < 1 / 2000000" by (simp add: e)
  from mk_rational_zero [OF this] ir show "intercept_rational = 0" by simp
  from c obtain k1 k2 k3 where k: "coef = [k1, k2, k3]"
    and "\<bar>k1 - (- 1 / 3)\<bar> \<le> tol" "\<bar>k2 - 0\<bar> \<le> tol" "\<bar>k3 - 1 / 3\<bar> \<le> tol"
    unfolding e by (rule list_all2_three)
  with tol have k1: "\<bar>k1 + 1 / 3\<bar> < 1 / 6000000" and k2: "\<bar>k2\<bar> < 1 / 2000000"
    and k3: "\<bar>k3 - 1 / 3\<bar> < 1 / 6000000"
    by simp_all
  from cr obtain r1 r2 r3 where r: "coef_rational = [r1, r2, r3]"
    and "mk_rational k1 r1" "mk_rational k2 r2" "mk_rational k3 r3"
    unfolding k by (rule list_all2_three')
  with mk_rational_minus_third [OF k1] mk_rational_zero [OF k2] mk_rational_third [OF k3]
  show "coef_rational = [- 1 / 3, 0, 1 / 3]" by (simp add: r)
qed

lemma f_exact_rat: "(of_int (f_exact n) :: rat) = of_nat n ^ 3 / 3 - of_nat n / 3"
proof -
  have "(of_int (3 * f_exact n) :: rat) = of_int (int n ^ 3 - int n)"
    by (simp only: three_f)
  then show ?thesis by simp
qed

lemma f_exact_pairs: "f_exact n = (\<Sum>a<n. \<Sum>b\<in>{..<n} - {a}. \<bar>int b - int a\<bar>)"
proof -
  have "(\<Sum>b<n. \<bar>int b - int a\<bar>) = (\<Sum>b\<in>{..<n} - {a}. \<bar>int b - int a\<bar>)" for a
    by (rule sum.mono_neutral_right) auto
  then show ?thesis by (simp add: f_sum)
qed

text \<open>
  Claim C10 as stated fails for large \<open>n\<close>. At \<open>n = 3024617\<close> the double sum is
  \<open>9223375962672822832\<close>, more than the greatest \<^verbatim>\<open>int64\<close>; the accumulator of
  \<^verbatim>\<open>f\<close> has wrapped around, \<^verbatim>\<open>f\<close> returns a negative number, and that is neither
  \<open>n^3/3 - n/3\<close> nor the value of \<^verbatim>\<open>g\<close>.
\<close>

theorem f_overflow_counterexample:
  "sint (f 3024617) = - 9223368111036728784
   \<and> (of_int (sint (f 3024617)) :: rat) \<noteq> 3024617 ^ 3 / 3 - 3024617 / 3
   \<and> of_int (sint (f 3024617)) \<noteq> g 0 [- 1 / 3, 0, 1 / 3] 3024617"
proof -
  have A: "sint (f 3024617) = - 9223368111036728784" by (rule f_overflow)
  have B: "(of_int (sint (f 3024617)) :: rat) = - 9223368111036728784"
    by (simp only: A)
  have "g 0 [- 1 / 3, 0, 1 / 3] 3024617 = of_nat 3024617 ^ 3 / 3 - of_nat 3024617 / 3"
    by (rule g_closed)
  also have "\<dots> = 9223375962672822832" by simp
  finally have C: "g 0 [- 1 / 3, 0, 1 / 3] 3024617 = 9223375962672822832" .
  have D: "(3024617 ^ 3 / 3 - 3024617 / 3 :: rat) = 9223375962672822832" by simp
  have "(- 9223368111036728784 :: rat) \<noteq> 9223375962672822832" by simp
  with A show ?thesis by (simp only: B C D) simp
qed

text \<open>
  Claim C10, as amended. Let the fit return any intercept and coefficients
  within \<open>tol < 1/6000000\<close> of the least-squares solution for the data frame of
  the notebook. Then \<^verbatim>\<open>mk_rational\<close> makes \<open>0\<close> and \<open>[-1/3, 0, 1/3]\<close> of them,
  \<^verbatim>\<open>g\<close> is \<open>n^3/3 - n/3\<close> at every natural number \<open>n\<close>, and for every
  \<open>n \<le> 3024616\<close> the number that \<^verbatim>\<open>f\<close> returns is the double sum (over \<open>a\<close> and
  \<open>b\<close> in \<open>0..n-1\<close> with \<open>b \<noteq> a\<close>, of \<open>|b - a|\<close>), equals \<open>n^3/3 - n/3\<close> and agrees
  with \<^verbatim>\<open>g\<close>. Beyond that bound the accumulator wraps: up to \<open>n = 2^63\<close> the word
  that \<^verbatim>\<open>f\<close> returns is \<open>(n^3 - n) / 3\<close> modulo \<open>2^64\<close>.
\<close>

theorem f_closed_form:
  assumes "tol < 1 / 6000000"
    and "linear_regression_fit tol fit_X fit_y intercept coef"
    and "mk_rational intercept intercept_rational"
    and "list_all2 mk_rational coef coef_rational"
  shows "intercept_rational = 0 \<and> coef_rational = [- 1 / 3, 0, 1 / 3]
     \<and> (\<forall>m. g intercept_rational coef_rational m = of_nat m ^ 3 / 3 - of_nat m / 3)
     \<and> (\<forall>m \<le> 3024616.
          sint (f m) = (\<Sum>a<m. \<Sum>b\<in>{..<m} - {a}. \<bar>int b - int a\<bar>)
          \<and> (of_int (sint (f m)) :: rat) = of_nat m ^ 3 / 3 - of_nat m / 3
          \<and> of_int (sint (f m)) = g intercept_rational coef_rational m)
     \<and> (\<forall>m \<le> 2 ^ 63. f m = word_of_int ((int m ^ 3 - int m) div 3))"
proof -
  from fitted_rationals [OF assms]
  have r: "intercept_rational = 0" "coef_rational = [- 1 / 3, 0, 1 / 3]" .
  have G: "g intercept_rational coef_rational m = of_nat m ^ 3 / 3 - of_nat m / 3" for m
    unfolding r by (rule g_closed)
  have F: "sint (f m) = (\<Sum>a<m. \<Sum>b\<in>{..<m} - {a}. \<bar>int b - int a\<bar>)
          \<and> (of_int (sint (f m)) :: rat) = of_nat m ^ 3 / 3 - of_nat m / 3
          \<and> of_int (sint (f m)) = g intercept_rational coef_rational m"
    if "m \<le> 3024616" for m
  proof -
    from that have s: "sint (f m) = f_exact m" by (rule f_in_range)
    have "(of_int (sint (f m)) :: rat) = of_int (f_exact m)" by (simp only: s)
    then have "(of_int (sint (f m)) :: rat) = of_nat m ^ 3 / 3 - of_nat m / 3"
      by (simp only: f_exact_rat)
    with s show ?thesis by (simp only: G f_exact_pairs)
  qed
  have W: "f m = word_of_int ((int m ^ 3 - int m) div 3)" for m
    by (simp only: f_word f_exact_value)
  from r G F W show ?thesis by blast
qed

theorem f_closed_form_witness:
  "linear_regression_fit (1 / 10 ^ 9) fit_X fit_y (5684341886080802 / 10 ^ 29)
      [- 333333333 / 10 ^ 9, 288657986 / 10 ^ 23, 333333333 / 10 ^ 9]
   \<and> mk_rational (5684341886080802 / 10 ^ 29) 0
   \<and> list_all2 mk_rational [- 333333333 / 10 ^ 9, 288657986 / 10 ^ 23, 333333333 / 10 ^ 9]
        [- 1 / 3, 0, 1 / 3]
   \<and> g 0 [- 1 / 3, 0, 1 / 3] 9 = 240
   \<and> sint (f 9) = 240
   \<and> sint (f 3024616) = 9223366814367850760"
proof -
  let ?i = "5684341886080802 / 10 ^ 29 :: real"
  let ?c = "[- 333333333 / 10 ^ 9, 288657986 / 10 ^ 23, 333333333 / 10 ^ 9 :: real]"
  have t: "(1 / 10 ^ 9 :: real) < 1 / 6000000" by simp
  have "least_squares fit_X fit_y 0 [- 1 / 3, 0, 1 / 3]
      \<and> \<bar>?i - 0\<bar> \<le> 1 / 10 ^ 9
      \<and> list_all2 (\<lambda>x x'. \<bar>x - x'\<bar> \<le> 1 / 10 ^ 9) ?c [- 1 / 3, 0, 1 / 3]"
    using exact_fit by simp
  then have fit: "linear_regression_fit (1 / 10 ^ 9) fit_X fit_y ?i ?c"
    unfolding linear_regression_fit_def by blast
  have i: "mk_rational ?i 0"
    using mk_rational_zero [of ?i 0] by simp
  have "mk_rational (- 333333333 / 10 ^ 9) (- 1 / 3)"
    using mk_rational_minus_third [of "- 333333333 / 10 ^ 9" "- 1 / 3"] by simp
  moreover have "mk_rational (288657986 / 10 ^ 23) 0"
    using mk_rational_zero [of "288657986 / 10 ^ 23" 0] by simp
  moreover have "mk_rational (333333333 / 10 ^ 9) (1 / 3)"
    using mk_rational_third [of "333333333 / 10 ^ 9" "1 / 3"] by simp
  ultimately have c: "list_all2 mk_rational ?c [- 1 / 3, 0, 1 / 3]" by simp
  from f_closed_form [OF t fit i c]
  have G: "\<forall>m. g 0 [- 1 / 3, 0, 1 / 3] m = of_nat m ^ 3 / 3 - of_nat m / 3"
    and F: "\<forall>m \<le> 3024616. (of_int (sint (f m)) :: rat) = of_nat m ^ 3 / 3 - of_nat m / 3"
    by blast+
  from G have g9: "g 0 [- 1 / 3, 0, 1 / 3] 9 = 240" by simp
  from F have "(of_int (sint (f 9)) :: rat) = of_nat 9 ^ 3 / 3 - of_nat 9 / 3" by simp
  also have "\<dots> = of_int 240" by simp
  finally have f9: "sint (f 9) = 240" by (simp only: of_int_eq_iff)
  from F have "(of_int (sint (f 3024616)) :: rat) = of_nat 3024616 ^ 3 / 3 - of_nat 3024616 / 3"
    by simp
  also have "\<dots> = of_int 9223366814367850760" by simp
  finally have fN: "sint (f 3024616) = 9223366814367850760" by (simp only: of_int_eq_iff)
  from fit i c g9 f9 fN show ?thesis by blast
qed

section \<open>Properties of the margin recovery\<close>

subsection \<open>The estimated joint table\<close>

lemma dxe_two_levels:
  "dxe [(Some 0, p0), (Some 1, p1)] [(Some 0, q0), (Some 1, q1)] =
     [((Some 0, Some 0), p0 * q0), ((Some 1, Some 0), p1 * q0),
      ((Some 0, Some 1), p0 * q1), ((Some 1, Some 1), p1 * q1)]"
  by (simp add: dxe_def merge_cross_def less_eq_prod_def less_prod_def)

text \<open>
  Claim C4. For two-level marginal tables \<open>p\<close> and \<open>q\<close> (as \<^verbatim>\<open>aggregate\<close>
  returns them) the estimated joint table \<^verbatim>\<open>dxe\<close> is the outer product: the
  entry keyed \<open>(i, j)\<close> is \<open>p[i] * q[j]\<close>, the rows come ordered by \<open>x2\<close>
  then \<open>x1\<close>, and the four entries sum to 1 whenever \<open>p\<close> and \<open>q\<close> each
  sum to 1.
\<close>

theorem estimate_joint_xx_outer_product:
  fixes p0 p1 q0 q1 :: real
  defines "p \<equiv> [(Some 0, p0), (Some 1, p1)]"
  defines "q \<equiv> [(Some 0, q0), (Some 1, q1)]"
  shows "(\<forall>i<2. \<forall>j<2. map_of (dxe p q) (Some i, Some j) = Some (snd (p ! i) * snd (q ! j)))
    \<and> map snd (dxe p q) = [p0 * q0, p1 * q0, p0 * q1, p1 * q1]
    \<and> (p0 + p1 = 1 \<and> q0 + q1 = 1 \<longrightarrow> sum_list (map snd (dxe p q)) = 1)"
proof -
  have two: "i < 2 \<longleftrightarrow> i = 0 \<or> i = 1" for i :: nat by auto
  have A: "\<forall>i<2. \<forall>j<2. map_of (dxe p q) (Some i, Some j) = Some (snd (p ! i) * snd (q ! j))"
    unfolding p_def q_def dxe_two_levels by (auto simp: two)
  have B: "map snd (dxe p q) = [p0 * q0, p1 * q0, p0 * q1, p1 * q1]"
    unfolding p_def q_def dxe_two_levels by simp
  have C: "sum_list (map snd (dxe p q)) = 1" if "p0 + p1 = 1" "q0 + q1 = 1"
  proof -
    have "sum_list (map snd (dxe p q)) = (p0 + p1) * (q0 + q1)"
      unfolding B by (simp add: algebra_simps)
    with that show ?thesis by simp
  qed
  from A B C show ?thesis by blast
qed

theorem estimate_joint_xx_outer_product_witness:
  "map snd (dxe [(Some 0, 7/10), (Some 1, 3/10)] [(Some 0, 2/10), (Some 1, 8/10)])
     = [14/100, 6/100, 56/100, 24/100]
   \<and> map_of (dxe [(Some 0, 7/10), (Some 1, 3/10)] [(Some 0, 2/10), (Some 1, 8/10)]) (Some 1, Some 0) = Some (6/100)
   \<and> sum_list (map snd (dxe [(Some 0, 7/10), (Some 1, 3/10)] [(Some 0, 2/10), (Some 1, 8/10)])) = 1"
  using estimate_joint_xx_outer_product [of "7/10" "3/10" "2/10" "8/10"]
  by simp

subsection \<open>Entropy and scaling\<close>

lemma entropy_filter_scale:
  "0 < c \<Longrightarrow> filter (\<lambda>x. x > 0) (smul c v) = smul c (filter (\<lambda>x. x > 0) v)"
  by (induction v) (simp_all add: smul_def zero_less_mult_iff)

lemma sum_list_smul: "sum_list (smul c v) = c * sum_list v"
  by (induction v) (simp_all add: smul_def algebra_simps)

text \<open>
  Claim C9. \<^verbatim>\<open>entropy\<close> does not change when its argument is multiplied by
  a positive scalar: the non-positive entries are dropped before and after, and
  the division by the sum cancels the factor.
\<close>

theorem entropy_scale_invariant:
  "0 < c \<Longrightarrow> entropy (smul c v) = entropy v"
proof -
  assume c: "0 < c"
  define v1 where "v1 = filter (\<lambda>x. x > 0) v"
  have key: "map (\<lambda>x. x / sum_list (smul c v1)) (smul c v1) = map (\<lambda>x. x / sum_list v1) v1"
    using c by (simp add: sum_list_smul) (simp add: smul_def)
  have "entropy (smul c v)
        = - sum_list (map (\<lambda>x. x * log 2 x) (map (\<lambda>x. x / sum_list (smul c v1)) (smul c v1)))"
    unfolding entropy_def Let_def v1_def by (simp only: entropy_filter_scale [OF c])
  also have "\<dots> = - sum_list (map (\<lambda>x. x * log 2 x) (map (\<lambda>x. x / sum_list v1) v1))"
    by (simp only: key)
  also have "\<dots> = entropy v"
    unfolding entropy_def Let_def v1_def ..
  finally show ?thesis .
qed

theorem entropy_scale_invariant_witness:
  "(0::real) < 2 \<and> entropy (smul 2 [1/4, 3/4, 0, -1]) = entropy [1/4, 3/4, 0, -1]"
  using entropy_scale_invariant [of 2 "[1/4, 3/4, 0, -1]"] by simp

subsection \<open>The aggregation matrix and its null space\<close>

lemma length8_cases:
  assumes "length (w :: 'a list) = 8"
  obtains a b c d e f' g' h where "w = [a, b, c, d, e, f', g', h]"
proof -
  from assms obtain a w1 where "w = a # w1" "length w1 = 7" by (cases w) auto
  moreover then obtain b w2 where "w1 = b # w2" "length w2 = 6" by (cases w1) auto
  moreover then obtain c w3 where "w2 = c # w3" "length w3 = 5" by (cases w2) auto
  moreover then obtain d w4 where "w3 = d # w4" "length w4 = 4" by (cases w3) auto
  moreover then obtain e w5 where "w4 = e # w5" "length w5 = 3" by (cases w4) auto
  moreover then obtain f' w6 where "w5 = f' # w6" "length w6 = 2" by (cases w5) auto
  moreover then obtain g' w7 where "w6 = g' # w7" "length w7 = 1" by (cases w6) auto
  moreover then obtain h where "w7 = [h]" by (cases w7) auto
  ultimately show ?thesis using that by blast
qed

lemma mat_vec_margin:
  "mat_vec margin_transform [a, b, c, d, e, f', g', h] =
     [a + c, b + d, e + g', f' + h, a + b, c + d, e + f', g' + h, a + e, b + f', c + g', d + h]"
  by (simp add: mat_vec_def margin_transform_def dot_def)

lemma test_vec_value: "test_vec = [1, - 1, - 1, 1, - 1, 1, 1, - 1]"
  by (simp add: test_vec_def detailed_frame_def)

lemma null_space_line:
  assumes "length w = 8"
  shows "mat_vec margin_transform w = replicate 12 0 \<longleftrightarrow> (\<exists>c. w = smul c test_vec)"
proof -
  from assms obtain a b c d e f' g' h where w: "w = [a, b, c, d, e, f', g', h]"
    by (rule length8_cases)
  show ?thesis
  proof
    assume "mat_vec margin_transform w = replicate 12 0"
    then have "b = - a" "c = - a" "d = a" "e = - a" "f' = a" "g' = a" "h = - a"
      unfolding w mat_vec_margin by (simp_all add: numeral_eq_Suc) 
    then have "w = smul a test_vec"
      by (simp add: w smul_def test_vec_value)
    then show "\<exists>c. w = smul c test_vec" ..
  next
    assume "\<exists>c. w = smul c test_vec"
    then obtain k where "w = smul k test_vec" ..
    then show "mat_vec margin_transform w = replicate 12 0"
      by (simp add: smul_def test_vec_value mat_vec_margin numeral_eq_Suc)
  qed
qed

lemma margin_transform_length: "length margin_transform = 12"
  by (simp add: margin_transform_def)

lemma replicate_12: "replicate 12 x = [x, x, x, x, x, x, x, x, x, x, x, x]"
  by (simp add: numeral_eq_Suc)


lemma margin_transform_rows: "\<forall>row \<in> set margin_transform. length row = 8"
  by (simp add: margin_transform_def)

lemma null_result_length: "null_result margin_transform raw \<Longrightarrow> length raw = 8"
  by (simp add: null_result_def margin_transform_def)

lemma ns_value:
  assumes "null_result margin_transform raw"
  shows "ns raw = Inr test_vec"
proof -
  have len: "length raw = 8" using assms by (rule null_result_length)
  have "mat_vec margin_transform raw = replicate 12 0"
    using assms by (simp add: null_result_def margin_transform_length)
  with len obtain k where raw: "raw = smul k test_vec"
    using null_space_line by blast
  have "k \<noteq> 0"
  proof
    assume "k = 0"
    then have "\<forall>x \<in> set raw. x = 0" by (simp add: raw smul_def)
    with assms show False by (auto simp: null_result_def)
  qed
  show ?thesis
  proof (cases "k > 0")
    case True
    then show ?thesis
      by (simp add: raw ns_def smul_def test_vec_value mean_def)
  next
    case False
    with \<open>k \<noteq> 0\<close> have "k < 0" by simp
    then show ?thesis
      by (simp add: raw ns_def smul_def test_vec_value mean_def)
  qed
qed

text \<open>
  Claim C5. Whatever non-zero null vector \<open>raw\<close> the library routine returns,
  the rescaled \<^verbatim>\<open>ns\<close> is \<open>[1, -1, -1, 1, -1, 1, 1, -1]\<close>, the matrix sends it to
  the zero vector, and the null space of the matrix is the line through it: an
  8-vector is sent to zero exactly when it is a multiple of \<^verbatim>\<open>ns\<close>. The first
  seven columns are independent (a null vector whose last entry is zero is
  zero), so the matrix has rank 7.
\<close>

theorem null_space_one_dimensional:
  assumes "null_result margin_transform raw"
  shows "\<exists>n. ns raw = Inr n \<and> n = [1, - 1, - 1, 1, - 1, 1, 1, - 1]
     \<and> mat_vec margin_transform n = replicate 12 0
     \<and> (\<forall>w. length w = 8 \<longrightarrow>
           (mat_vec margin_transform w = replicate 12 0 \<longleftrightarrow> (\<exists>c. w = smul c n)))
     \<and> (\<forall>w. length w = 8 \<and> w ! 7 = 0 \<and> mat_vec margin_transform w = replicate 12 0
           \<longrightarrow> w = replicate 8 0)"
proof -
  have A: "mat_vec margin_transform test_vec = replicate 12 0"
    by (simp add: test_vec_value mat_vec_margin numeral_eq_Suc)
  have B: "w = replicate 8 0"
    if "length w = 8" "w ! 7 = 0" "mat_vec margin_transform w = replicate 12 0" for w
  proof -
    from that(1,3) obtain k where "w = smul k test_vec" using null_space_line by blast
    with that(2) show ?thesis by (simp add: smul_def test_vec_value numeral_eq_Suc)
  qed
  from ns_value [OF assms] A B null_space_line show ?thesis
    by (simp add: test_vec_value [symmetric]) blast
qed

theorem null_space_one_dimensional_witness:
  "null_result margin_transform [- 2, 2, 2, - 2, 2, - 2, - 2, 2]
   \<and> ns [- 2, 2, 2, - 2, 2, - 2, - 2, 2] = Inr [1, - 1, - 1, 1, - 1, 1, 1, - 1]
   \<and> mat_vec margin_transform [1, - 1, - 1, 1, - 1, 1, 1, - 1] = replicate 12 0
   \<and> (\<exists>c. [3, - 3, - 3, 3, - 3, 3, 3, - 3] = smul c [1, - 1, - 1, 1, - 1, 1, 1, - 1])"
proof -
  have h: "null_result margin_transform [- 2, 2, 2, - 2, 2, - 2, - 2, 2]"
    by (simp add: null_result_def mat_vec_margin margin_transform_rows margin_transform_length replicate_12)
  from null_space_one_dimensional [OF h] obtain n where
    n: "ns [- 2, 2, 2, - 2, 2, - 2, - 2, 2] = Inr n" "n = [1, - 1, - 1, 1, - 1, 1, 1, - 1]"
      "mat_vec margin_transform n = replicate 12 0"
    and line: "\<forall>w. length w = 8 \<longrightarrow>
           (mat_vec margin_transform w = replicate 12 0 \<longleftrightarrow> (\<exists>c. w = smul c n))"
    by blast
  have m: "mat_vec margin_transform [3, - 3, - 3, 3, - 3, 3, 3, - 3] = replicate 12 0"
    by (simp add: mat_vec_margin replicate_12)
  from line m have "\<exists>c. [3, - 3, - 3, 3, - 3, 3, 3, - 3] = smul c n" by simp
  with n h show ?thesis by simp
qed

lemma sum_list_family:
  assumes "length v0 = 8"
  shows "sum_list (solution_family v0 test_vec z) = sum_list v0"
proof -
  from assms obtain a b c d e f' g' h where "v0 = [a, b, c, d, e, f', g', h]"
    by (rule length8_cases)
  then show ?thesis
    by (simp add: solution_family_def vadd_def smul_def test_vec_value)
qed

text \<open>
  Claim C8. The entries of \<^verbatim>\<open>ns\<close> sum to zero, so every member
  \<^verbatim>\<open>v0 + z * ns\<close> of the solution family has the same entry sum as \<open>v0\<close>.
\<close>

theorem family_sum_invariant:
  assumes "null_result margin_transform raw" and "ns raw = Inr n" and "length v0 = 8"
  shows "n = [1, - 1, - 1, 1, - 1, 1, 1, - 1] \<and> sum_list n = 0
     \<and> sum_list (solution_family v0 n z) = sum_list v0"
proof -
  from ns_value [OF assms(1)] assms(2) have n: "n = test_vec" by simp
  then show ?thesis
    using sum_list_family [OF assms(3)] by (simp add: test_vec_value)
qed

theorem family_sum_invariant_witness:
  "ns [1, - 1, - 1, 1, - 1, 1, 1, - 1] = Inr [1, - 1, - 1, 1, - 1, 1, 1, - 1]
   \<and> sum_list (solution_family [1/8, 2/8, 0, 1/8, 1/8, 1/8, 1/8, 1/8] [1, - 1, - 1, 1, - 1, 1, 1, - 1] (1/16))
       = sum_list [1/8, 2/8, 0, 1/8, 1/8, 1/8, 1/8, 1/8 :: real]"
proof -
  have h: "null_result margin_transform [1, - 1, - 1, 1, - 1, 1, 1, - 1]"
    by (simp add: null_result_def mat_vec_margin margin_transform_rows margin_transform_length replicate_12)
  have e: "ns [1, - 1, - 1, 1, - 1, 1, 1, - 1] = Inr [1, - 1, - 1, 1, - 1, 1, 1, - 1]"
    by (simp add: ns_def mean_def)
  have l: "length [1/8, 2/8, 0, 1/8, 1/8, 1/8, 1/8, 1/8 :: real] = 8" by simp
  from family_sum_invariant [OF h e l, of "1/16"] e show ?thesis by simp
qed

subsection \<open>The interval of feasible solutions\<close>

lemma family_entries:
  "solution_family [a, b, c, d, e, f', g', h] test_vec z =
     [a + z, b - z, c - z, d + z, e - z, f' + z, g' + z, h - z]"
  by (simp add: solution_family_def vadd_def smul_def test_vec_value)

lemma interval_entries:
  "feasible_z_interval [a, b, c, d, e, f', g', h] test_vec =
     (if max (- a) (max (- d) (max (- f') (- g'))) > min b (min c (min e h))
      then Inl InfeasibleReconstruction
      else Inr (Some (max (- a) (max (- d) (max (- f') (- g')))), Some (min b (min c (min e h)))))"
  by (simp add: feasible_z_interval_def lower_bounds_def upper_bounds_def greatest_def least_def
      interval_empty_def test_vec_value Let_def)

lemma max4_cases: "max (a::real) (max d (max f' g')) \<in> {a, d, f', g'}"
  by (simp add: max_def)

lemma min4_cases: "min (a::real) (min d (min f' g')) \<in> {a, d, f', g'}"
  by (simp add: min_def)

lemma interval_tight:
  assumes "length v0 = 8" and "feasible_z_interval v0 test_vec = Inr (lo, hi)"
  shows "\<exists>z_lo z_hi. lo = Some z_lo \<and> hi = Some z_hi \<and> z_lo \<le> z_hi
     \<and> 0 \<in> set (solution_family v0 test_vec z_lo)
     \<and> 0 \<in> set (solution_family v0 test_vec z_hi)
     \<and> (\<forall>z. (z_lo \<le> z \<and> z \<le> z_hi) \<longleftrightarrow> (\<forall>x \<in> set (solution_family v0 test_vec z). 0 \<le> x))
     \<and> (\<forall>z. z_lo < z \<and> z < z_hi \<longrightarrow> (\<forall>x \<in> set (solution_family v0 test_vec z). 0 < x))"
proof -
  from assms(1) obtain a b c d e f' g' h where v0: "v0 = [a, b, c, d, e, f', g', h]"
    by (rule length8_cases)
  define z_lo where "z_lo = max (- a) (max (- d) (max (- f') (- g')))"
  define z_hi where "z_hi = min b (min c (min e h))"
  have res: "Inr (lo, hi) =
      (if z_lo > z_hi then Inl InfeasibleReconstruction else Inr (Some z_lo, Some z_hi))"
    using assms(2) unfolding v0 interval_entries z_lo_def z_hi_def by simp
  have le: "z_lo \<le> z_hi"
    using res by (cases "z_lo > z_hi") simp_all
  with res have lo: "lo = Some z_lo" and hi: "hi = Some z_hi"
    by simp_all
  have "z_lo \<in> {- a, - d, - f', - g'}"
    unfolding z_lo_def by (rule max4_cases)
  then have A: "0 \<in> set (solution_family v0 test_vec z_lo)"
    unfolding v0 family_entries by auto
  have "z_hi \<in> {b, c, e, h}"
    unfolding z_hi_def by (rule min4_cases)
  then have B: "0 \<in> set (solution_family v0 test_vec z_hi)"
    unfolding v0 family_entries by auto
  have C: "(z_lo \<le> z \<and> z \<le> z_hi) \<longleftrightarrow> (\<forall>x \<in> set (solution_family v0 test_vec z). 0 \<le> x)" for z
    unfolding v0 family_entries z_lo_def z_hi_def by (simp add: algebra_simps) linarith
  have D: "\<forall>x \<in> set (solution_family v0 test_vec z). 0 < x" if "z_lo < z \<and> z < z_hi" for z
    using that unfolding v0 family_entries z_lo_def z_hi_def by simp
  from le lo hi A B C D show ?thesis by blast
qed

text \<open>
  Claim C6. With \<^verbatim>\<open>ns\<close> the rescaled null vector and any 8-vector \<open>v0\<close>, an
  interval returned by \<^verbatim>\<open>feasible_z_interval\<close> has both ends, it is not empty,
  each end vector \<^verbatim>\<open>v0 + z * ns\<close> has an entry equal to 0, the closed interval
  is exactly the set of \<open>z\<close> at which every entry is non-negative, and strictly
  inside it every entry is positive.
\<close>

theorem feasible_z_interval_tight:
  assumes "null_result margin_transform raw" and "ns raw = Inr n" and "length v0 = 8"
    and "feasible_z_interval v0 n = Inr (lo, hi)"
  shows "\<exists>z_lo z_hi. lo = Some z_lo \<and> hi = Some z_hi \<and> z_lo \<le> z_hi
     \<and> 0 \<in> set (solution_family v0 n z_lo)
     \<and> 0 \<in> set (solution_family v0 n z_hi)
     \<and> (\<forall>z. (z_lo \<le> z \<and> z \<le> z_hi) \<longleftrightarrow> (\<forall>x \<in> set (solution_family v0 n z). 0 \<le> x))
     \<and> (\<forall>z. z_lo < z \<and> z < z_hi \<longrightarrow> (\<forall>x \<in> set (solution_family v0 n z). 0 < x))"
proof -
  from ns_value [OF assms(1)] assms(2) have "n = test_vec" by simp
  with assms(3,4) show ?thesis using interval_tight by simp
qed

theorem feasible_z_interval_tight_witness:
  "feasible_z_interval [48/1000, 4/1000, 562/1000, 235/1000, 92/1000, 56/1000, - 2/1000, 5/1000]
      [1, - 1, - 1, 1, - 1, 1, 1, - 1] = Inr (Some (2/1000), Some (4/1000))
   \<and> 0 \<in> set (solution_family [48/1000, 4/1000, 562/1000, 235/1000, 92/1000, 56/1000, - 2/1000, 5/1000]
         [1, - 1, - 1, 1, - 1, 1, 1, - 1] (2/1000))
   \<and> 0 \<in> set (solution_family [48/1000, 4/1000, 562/1000, 235/1000, 92/1000, 56/1000, - 2/1000, 5/1000]
         [1, - 1, - 1, 1, - 1, 1, 1, - 1] (4/1000))
   \<and> list_all (\<lambda>x. 0 < x)
        (solution_family [48/1000, 4/1000, 562/1000, 235/1000, 92/1000, 56/1000, - 2/1000, 5/1000]
           [1, - 1, - 1, 1, - 1, 1, 1, - 1] (3/1000))"
proof -
  let ?v = "[48/1000, 4/1000, 562/1000, 235/1000, 92/1000, 56/1000, - 2/1000, 5/1000 :: real]"
  let ?n = "[1, - 1, - 1, 1, - 1, 1, 1, - 1 :: real]"
  have h: "null_result margin_transform ?n"
    by (simp add: null_result_def mat_vec_margin margin_transform_rows margin_transform_length replicate_12)
  have e: "ns ?n = Inr ?n"
    by (simp add: ns_def mean_def)
  have l: "length ?v = 8" by simp
  have i: "feasible_z_interval ?v ?n = Inr (Some (2/1000), Some (4/1000))"
    using interval_entries [of "48/1000" "4/1000" "562/1000" "235/1000" "92/1000" "56/1000" "- 2/1000" "5/1000"]
    by (simp add: test_vec_value)
  from feasible_z_interval_tight [OF h e l i] obtain z_lo z_hi where
    z: "Some (2/1000) = Some z_lo" "Some (4/1000) = Some z_hi"
    and A: "0 \<in> set (solution_family ?v ?n z_lo)"
    and B: "0 \<in> set (solution_family ?v ?n z_hi)"
    and D: "\<forall>z. z_lo < z \<and> z < z_hi \<longrightarrow> (\<forall>x \<in> set (solution_family ?v ?n z). 0 < x)"
    by blast
  from z have z': "z_lo = 2/1000" "z_hi = 4/1000" by simp_all
  have "\<forall>x \<in> set (solution_family ?v ?n (3/1000)). 0 < x"
    using D [rule_format, of "3/1000"] by (simp add: z')
  with A B i show ?thesis by (simp add: z' list_all_iff)
qed

subsection \<open>Entropy along the solution family\<close>

lemma sum_list_filter_pos:
  "sum_list (map g' (filter (\<lambda>x. x > 0) v)) = sum_list (map (\<lambda>x. if x > 0 then g' x else 0) v)"
  for g' :: "real \<Rightarrow> real"
  by (induction v) simp_all

lemma sum_list_pos_part:
  "\<forall>x \<in> set v. 0 \<le> x \<Longrightarrow> sum_list (filter (\<lambda>x. x > 0) v) = sum_list v"
  for v :: "real list"
  by (induction v) (auto simp: less_le)

lemma sum_list_map_div:
  "sum_list (map (\<lambda>x. g' x / S) v) = sum_list (map g' v) / S"
  for g' :: "real \<Rightarrow> real"
  by (induction v) (simp_all add: add_divide_distrib)

lemma sum_list_map_div_mult:
  "sum_list (map (\<lambda>x. x / S * c) v) = sum_list v / S * c"
  for v :: "real list"
  by (induction v) (simp_all add: add_divide_distrib algebra_simps)

lemma entropy_expand:
  assumes nonneg: "\<forall>x \<in> set v. 0 \<le> x" and pos: "0 < sum_list v"
  shows "entropy v =
    log 2 (sum_list v) - sum_list (map (\<lambda>x. if x > 0 then x * log 2 x else 0) v) / sum_list v"
proof -
  define v1 where "v1 = filter (\<lambda>x. x > 0) v"
  define S where "S = sum_list v"
  have S1: "sum_list v1 = S"
    unfolding v1_def S_def using nonneg by (rule sum_list_pos_part)
  have S0: "0 < S" using pos by (simp add: S_def)
  have each: "(x / S) * log 2 (x / S) = (x * log 2 x) / S - (x / S) * log 2 S" if "x \<in> set v1" for x
  proof -
    from that have "0 < x" by (simp add: v1_def)
    with S0 show ?thesis by (simp add: log_divide algebra_simps diff_divide_distrib)
  qed
  have "entropy v = - sum_list (map (\<lambda>x. (x / S) * log 2 (x / S)) v1)"
    unfolding entropy_def Let_def v1_def [symmetric] S1 by (simp add: comp_def)
  also have "\<dots> = - sum_list (map (\<lambda>x. (x * log 2 x) / S - (x / S) * log 2 S) v1)"
    using each by (simp cong: map_cong)
  also have "\<dots> = - (sum_list (map (\<lambda>x. x * log 2 x) v1) / S - (sum_list v1 / S) * log 2 S)"
    by (simp only: sum_list_subtractf sum_list_map_div sum_list_map_div_mult)
  also have "\<dots> = log 2 S - sum_list (map (\<lambda>x. x * log 2 x) v1) / S"
    using S0 by (simp add: S1)
  finally show ?thesis
    unfolding v1_def S_def sum_list_filter_pos .
qed


lemma gibbs_entry:
  assumes "0 < p" and "0 \<le> q"
  shows "(q - p) / ln 2 \<le> (if q > 0 then q * log 2 q else 0) - q * log 2 p"
    and "q \<noteq> p \<Longrightarrow> (q - p) / ln 2 < (if q > 0 then q * log 2 q else 0) - q * log 2 p"
proof -
  have l2: "0 < ln (2::real)" by simp
  have le: "q - p \<le> (if q > 0 then q * ln q else 0) - q * ln p"
  proof (cases "q > 0")
    case True
    with assms have "ln (p / q) \<le> p / q - 1" by (intro ln_le_minus_one) simp
    then have "q * ln (p / q) \<le> q * (p / q - 1)"
      using True by (intro mult_left_mono) simp_all
    with True assms show ?thesis by (simp add: ln_div algebra_simps)
  next
    case False
    with assms show ?thesis by simp
  qed
  have lt: "q - p < (if q > 0 then q * ln q else 0) - q * ln p" if "q \<noteq> p"
  proof (cases "q > 0")
    case True
    have "ln (p / q) \<noteq> p / q - 1"
    proof
      assume "ln (p / q) = p / q - 1"
      with True assms have "p / q = 1" by (intro ln_eq_minus_one) simp_all
      with True that show False by simp
    qed
    moreover from True assms have "ln (p / q) \<le> p / q - 1" by (intro ln_le_minus_one) simp
    ultimately have "ln (p / q) < p / q - 1" by simp
    then have "q * ln (p / q) < q * (p / q - 1)"
      using True by (intro mult_strict_left_mono) simp_all
    with True assms show ?thesis by (simp add: ln_div algebra_simps)
  next
    case False
    with assms show ?thesis by simp
  qed
  have conv: "(if q > 0 then q * log 2 q else 0) - q * log 2 p
      = ((if q > 0 then q * ln q else 0) - q * ln p) / ln 2"
    by (simp add: log_def diff_divide_distrib)
  show "(q - p) / ln 2 \<le> (if q > 0 then q * log 2 q else 0) - q * log 2 p"
    unfolding conv using le l2 by (simp add: divide_right_mono)
  show "(q - p) / ln 2 < (if q > 0 then q * log 2 q else 0) - q * log 2 p" if "q \<noteq> p"
    unfolding conv using lt [OF that] l2 by (simp add: divide_strict_right_mono)
qed

lemma gibbs_list_le:
  assumes "length q = length p" and "\<forall>x \<in> set p. 0 < x" and "\<forall>x \<in> set q. 0 \<le> x"
  shows "(sum_list q - sum_list p) / ln 2
     \<le> sum_list (map (\<lambda>x. if x > 0 then x * log 2 x else 0) q) - dot q (map (log 2) p)"
  using assms
proof (induction q p rule: list_induct2)
  case Nil
  show ?case by (simp add: dot_def)
next
  case (Cons x xs y ys)
  from Cons.prems have "0 < y" "0 \<le> x" by simp_all
  from gibbs_entry(1) [OF this] Cons.IH Cons.prems show ?case
    by (simp add: dot_def diff_divide_distrib add_divide_distrib) 
qed

lemma gibbs_list_less:
  assumes "length q = length p" and "\<forall>x \<in> set p. 0 < x" and "\<forall>x \<in> set q. 0 \<le> x"
    and "q \<noteq> p"
  shows "(sum_list q - sum_list p) / ln 2
     < sum_list (map (\<lambda>x. if x > 0 then x * log 2 x else 0) q) - dot q (map (log 2) p)"
  using assms
proof (induction q p rule: list_induct2)
  case Nil
  then show ?case by simp
next
  case (Cons x xs y ys)
  from Cons.prems have xy: "0 < y" "0 \<le> x" by simp_all
  from Cons.prems have tl: "\<forall>x \<in> set ys. 0 < x" "\<forall>x \<in> set xs. 0 \<le> x" by simp_all
  show ?case
  proof (cases "x = y")
    case True
    with Cons.prems have "xs \<noteq> ys" by simp
    from Cons.IH [OF tl this] gibbs_entry(1) [OF xy] show ?thesis
      by (simp add: dot_def diff_divide_distrib add_divide_distrib)
  next
    case False
    from gibbs_entry(2) [OF xy False] gibbs_list_le [OF Cons.hyps tl] show ?thesis
      by (simp add: dot_def diff_divide_distrib add_divide_distrib)
  qed
qed


lemma dot_family:
  assumes "length a = length b" and "length b = length c"
  shows "dot (vadd a (smul t b)) c = dot a c + t * dot b c"
  using assms
proof (induction a b c rule: list_induct3)
  case Nil
  show ?case by (simp add: dot_def vadd_def smul_def)
next
  case (Cons x xs y ys z zs)
  then show ?case by (simp add: dot_def vadd_def smul_def algebra_simps)
qed

lemma xlog_sum_positive:
  "\<forall>x \<in> set p. 0 < x \<Longrightarrow>
     sum_list (map (\<lambda>x. if x > 0 then x * log 2 x else 0) p) = dot p (map (log 2) p)"
  by (induction p) (simp_all add: dot_def)

lemma test_vec_length: "length test_vec = 8"
  by (simp add: test_vec_value)

lemma family_length: "length p = 8 \<Longrightarrow> length (solution_family p test_vec t) = 8"
  by (simp add: solution_family_def vadd_def smul_def test_vec_length)

lemma family_moves:
  assumes "length p = 8" and "t \<noteq> 0"
  shows "solution_family p test_vec t \<noteq> p"
proof -
  from assms(1) obtain a b c d e f' g' h where "p = [a, b, c, d, e, f', g', h]"
    by (rule length8_cases)
  with assms(2) show ?thesis by (simp add: family_entries)
qed

lemma positive_sum:
  fixes p :: "real list"
  assumes "length p = 8" and "\<forall>x \<in> set p. 0 < x"
  shows "0 < sum_list p"
proof -
  from assms(1) obtain a b c d e f' g' h where "p = [a, b, c, d, e, f', g', h]"
    by (rule length8_cases)
  with assms(2) show ?thesis by auto
qed

lemma entropy_tangent:
  assumes len: "length p = 8" and pos: "\<forall>x \<in> set p. 0 < x"
    and nonneg: "\<forall>x \<in> set (solution_family p test_vec t). 0 \<le> x" and t: "t \<noteq> 0"
  shows "entropy (solution_family p test_vec t)
     < entropy p - t * dot test_vec (map (log 2) p) / sum_list p"
proof -
  define q where "q = solution_family p test_vec t"
  define S where "S = sum_list p"
  define G where "G = dot test_vec (map (log 2) p)"
  have S: "0 < S" unfolding S_def using len pos by (rule positive_sum)
  have Sq: "sum_list q = S" unfolding q_def S_def using len by (rule sum_list_family)
  have lq: "length q = length p" unfolding q_def using len by (simp add: family_length)
  have neq: "q \<noteq> p" unfolding q_def using len t by (rule family_moves)
  have nn: "\<forall>x \<in> set q. 0 \<le> x" using nonneg by (simp add: q_def)
  have "dot q (map (log 2) p) = dot p (map (log 2) p) + t * G"
    unfolding q_def solution_family_def G_def
    by (rule dot_family) (simp_all add: len test_vec_length)
  moreover have "(sum_list q - sum_list p) / ln 2
     < sum_list (map (\<lambda>x. if x > 0 then x * log 2 x else 0) q) - dot q (map (log 2) p)"
    using lq pos nn neq by (rule gibbs_list_less)
  ultimately have key: "dot p (map (log 2) p) + t * G
     < sum_list (map (\<lambda>x. if x > 0 then x * log 2 x else 0) q)"
    by (simp add: Sq S_def)
  have Eq: "entropy q = log 2 S - sum_list (map (\<lambda>x. if x > 0 then x * log 2 x else 0) q) / S"
    using entropy_expand [OF nn] S by (simp add: Sq)
  have pnn: "\<forall>x \<in> set p. 0 \<le> x" using pos by (auto intro: less_imp_le)
  have Ep: "entropy p = log 2 S - dot p (map (log 2) p) / S"
    using entropy_expand [OF pnn] S by (simp add: S_def xlog_sum_positive [OF pos])
  from key S have "(dot p (map (log 2) p) + t * G) / S
     < sum_list (map (\<lambda>x. if x > 0 then x * log 2 x else 0) q) / S"
    by (simp add: divide_strict_right_mono)
  then have "entropy q < entropy p - t * G / S"
    unfolding Eq Ep by (simp add: add_divide_distrib)
  then show ?thesis by (simp add: q_def G_def S_def)
qed

lemma log_orthogonal_product:
  assumes "0 < a" "0 < b" "0 < c" "0 < d" "0 < e" "0 < f'" "0 < g'" "0 < h"
  shows "dot test_vec (map (log 2) [a, b, c, d, e, f', g', h])
     = log 2 (a * d * f' * g') - log 2 (b * c * e * h)"
  using assms by (simp add: dot_def test_vec_value log_mult)

subsection \<open>The ground truth of the example\<close>

lemma sigmoid_bounds: "0 < sigmoid x" "sigmoid x < 1"
  by (simp_all add: sigmoid_def add_pos_pos)

lemma sigmoid_odds: "sigmoid x = exp x * (1 - sigmoid x)"
proof -
  have "exp x * exp (- x) = 1" by (simp add: exp_minus)
  moreover have "0 < 1 + exp (- x)" by (simp add: add_pos_pos)
  ultimately show ?thesis
    by (simp add: sigmoid_def field_simps)
qed

lemma proportion_entries:
  "proportion pX1 pX2 c0 b1 b2 =
     [(1 - pX1) * (1 - pX2) * (1 - sigmoid c0),
      pX1 * (1 - pX2) * (1 - sigmoid (c0 + b1)),
      (1 - pX1) * pX2 * (1 - sigmoid (c0 + b2)),
      pX1 * pX2 * (1 - sigmoid (c0 + b1 + b2)),
      (1 - pX1) * (1 - pX2) * sigmoid c0,
      pX1 * (1 - pX2) * sigmoid (c0 + b1),
      (1 - pX1) * pX2 * sigmoid (c0 + b2),
      pX1 * pX2 * sigmoid (c0 + b1 + b2)]"
  by (simp add: proportion_def detailed_frame_def x_distribution_def p_observed_outcome_def
      y_linear_def)

lemma proportion_length: "length (proportion pX1 pX2 c0 b1 b2) = 8"
  by (simp add: proportion_entries)

lemma proportion_positive:
  assumes "0 < pX1" "pX1 < 1" "0 < pX2" "pX2 < 1"
  shows "\<forall>x \<in> set (proportion pX1 pX2 c0 b1 b2). 0 < x"
  using assms sigmoid_bounds by (simp add: proportion_entries)

lemma proportion_nonneg:
  assumes "0 \<le> pX1" "pX1 \<le> 1" "0 \<le> pX2" "pX2 \<le> 1"
  shows "\<forall>x \<in> set (proportion pX1 pX2 c0 b1 b2). 0 \<le> x"
  using assms sigmoid_bounds [THEN less_imp_le] by (simp add: proportion_entries)

lemma pooled_estimate_entries:
  "pooled_estimate [a, b, c, d, e, f', g', h] =
     [a + c, b + d, e + g', f' + h, a + b, c + d, e + f', g' + h,
      (a + c + (e + g')) * (a + b + (e + f')), (b + d + (f' + h)) * (a + b + (e + f')),
      (a + c + (e + g')) * (c + d + (g' + h)), (b + d + (f' + h)) * (c + d + (g' + h))]"
proof -
  have mf: "margin_frame [a, b, c, d, e, f', g', h] =
      zip margin_keys [a + c, b + d, e + g', f' + h, a + b, c + d, e + f', g' + h, a + e, b + f', c + g', d + h]"
    by (simp only: margin_frame_def mat_vec_margin)
  have A: "d1a (d1 (margin_frame [a, b, c, d, e, f', g', h]))
      = [(Some 0, a + c + (e + g')), (Some 1, b + d + (f' + h))]"
    unfolding mf by (simp add: d1a_def d1_def margin_keys_def aggregate_sum_def)
  have B: "d2a (d2 (margin_frame [a, b, c, d, e, f', g', h]))
      = [(Some 0, a + b + (e + f')), (Some 1, c + d + (g' + h))]"
    unfolding mf by (simp add: d2a_def d2_def margin_keys_def aggregate_sum_def)
  have C: "map snd (d1 (margin_frame [a, b, c, d, e, f', g', h])) = [a + c, b + d, e + g', f' + h]"
    unfolding mf by (simp add: d1_def margin_keys_def)
  have D: "map snd (d2 (margin_frame [a, b, c, d, e, f', g', h])) = [a + b, c + d, e + f', g' + h]"
    unfolding mf by (simp add: d2_def margin_keys_def)
  show ?thesis
    by (simp only: pooled_estimate_def Let_def estimated_proportions_def A B C D dxe_two_levels)
      simp
qed

lemma pooled_estimate_consistent:
  "pooled_estimate (proportion pX1 pX2 c0 b1 b2)
     = mat_vec margin_transform (proportion pX1 pX2 c0 b1 b2)"
  unfolding proportion_entries pooled_estimate_entries mat_vec_margin
  by (simp add: algebra_simps)


lemma proportion_no_interaction:
  shows "(proportion pX1 pX2 c0 b1 b2 ! 0) * (proportion pX1 pX2 c0 b1 b2 ! 3)
         * (proportion pX1 pX2 c0 b1 b2 ! 5) * (proportion pX1 pX2 c0 b1 b2 ! 6)
       = (proportion pX1 pX2 c0 b1 b2 ! 1) * (proportion pX1 pX2 c0 b1 b2 ! 2)
         * (proportion pX1 pX2 c0 b1 b2 ! 4) * (proportion pX1 pX2 c0 b1 b2 ! 7)"
proof -
  define t0 where "t0 = sigmoid c0"
  define t1 where "t1 = sigmoid (c0 + b1)"
  define t2 where "t2 = sigmoid (c0 + b2)"
  define t3 where "t3 = sigmoid (c0 + b1 + b2)"
  define u0 where "u0 = 1 - t0"
  define u1 where "u1 = 1 - t1"
  define u2 where "u2 = 1 - t2"
  define u3 where "u3 = 1 - t3"
  have o0: "t0 = exp c0 * u0"
    unfolding u0_def t0_def by (rule sigmoid_odds)
  have o1: "t1 = exp c0 * exp b1 * u1"
    unfolding u1_def t1_def using sigmoid_odds [of "c0 + b1"] by (simp add: exp_add)
  have o2: "t2 = exp c0 * exp b2 * u2"
    unfolding u2_def t2_def using sigmoid_odds [of "c0 + b2"] by (simp add: exp_add)
  have o3: "t3 = exp c0 * exp b1 * exp b2 * u3"
    unfolding u3_def t3_def using sigmoid_odds [of "c0 + b1 + b2"] by (simp add: exp_add)
  have key: "u0 * u3 * t1 * t2 = u1 * u2 * t0 * t3"
    by (simp add: o0 o1 o2 o3)
  have "((1 - pX1) * (1 - pX2) * u0) * (pX1 * pX2 * u3) * (pX1 * (1 - pX2) * t1) * ((1 - pX1) * pX2 * t2)
      = ((1 - pX1) * (1 - pX2) * pX1 * pX2 * pX1 * (1 - pX2) * (1 - pX1) * pX2) * (u0 * u3 * t1 * t2)"
    by (simp add: algebra_simps)
  also have "\<dots> = ((1 - pX1) * (1 - pX2) * pX1 * pX2 * pX1 * (1 - pX2) * (1 - pX1) * pX2) * (u1 * u2 * t0 * t3)"
    by (simp only: key)
  also have "\<dots> = (pX1 * (1 - pX2) * u1) * ((1 - pX1) * pX2 * u2) * ((1 - pX1) * (1 - pX2) * t0) * (pX1 * pX2 * t3)"
    by (simp add: algebra_simps)
  finally show ?thesis
    unfolding proportion_entries t0_def [symmetric] t1_def [symmetric] t2_def [symmetric]
      t3_def [symmetric] u0_def [symmetric] u1_def [symmetric] u2_def [symmetric] u3_def [symmetric]
    by (simp add: numeral_eq_Suc)
qed

lemma log_orthogonal_iff:
  assumes "0 < a" "0 < b" "0 < c" "0 < d" "0 < e" "0 < f'" "0 < g'" "0 < h"
  shows "sum_list (p_vec [a, b, c, d, e, f', g', h]) = ln (a * d * f' * g') - ln (b * c * e * h)"
    and "dot test_vec (map (log 2) [a, b, c, d, e, f', g', h])
           = sum_list (p_vec [a, b, c, d, e, f', g', h]) / ln 2"
  using assms by (simp_all add: p_vec_def dot_def test_vec_value ln_mult log_def
      diff_divide_distrib add_divide_distrib)

lemma p_vec_log2:
  assumes "length p = 8" and "\<forall>x \<in> set p. 0 < x"
  shows "dot test_vec (map (log 2) p) = sum_list (p_vec p) / ln 2"
proof -
  from assms(1) obtain a b c d e f' g' h where p: "p = [a, b, c, d, e, f', g', h]"
    by (rule length8_cases)
  with assms(2) show ?thesis
    using log_orthogonal_iff(2) [of a b c d e f' g' h] by simp
qed

lemma proportion_p_vec:
  assumes "0 < pX1" "pX1 < 1" "0 < pX2" "pX2 < 1"
  shows "sum_list (p_vec (proportion pX1 pX2 c0 b1 b2)) = 0"
proof -
  obtain a b c d e f' g' h where p: "proportion pX1 pX2 c0 b1 b2 = [a, b, c, d, e, f', g', h]"
    using proportion_length by (rule length8_cases)
  from proportion_positive [OF assms, of c0 b1 b2]
  have pos: "0 < a" "0 < b" "0 < c" "0 < d" "0 < e" "0 < f'" "0 < g'" "0 < h"
    by (simp_all add: p)
  from proportion_no_interaction [of pX1 pX2 c0 b1 b2]
  have "a * d * f' * g' = b * c * e * h"
    by (simp add: p numeral_eq_Suc)
  with log_orthogonal_iff(1) [OF pos] show ?thesis by (simp add: p)
qed


subsection \<open>Least-squares solutions form one line\<close>

lemma transpose_margin_entries:
  "mat_vec (transpose margin_transform) [r1, r2, r3, r4, r5, r6, r7, r8, r9, r10, r11, r12] =
     [r1 + r5 + r9, r2 + r5 + r10, r1 + r6 + r11, r2 + r6 + r12,
      r3 + r7 + r9, r4 + r7 + r10, r3 + r8 + r11, r4 + r8 + r12]"
  by (simp add: mat_vec_def margin_transform_def dot_def)

lemma qr_solution_length: "qr_solution margin_transform b v \<Longrightarrow> length v = 8"
  by (simp add: qr_solution_def margin_transform_def)

lemma qr_solution_exact:
  "length p = 8 \<Longrightarrow> qr_solution margin_transform (mat_vec margin_transform p) p"
  by (simp add: qr_solution_def margin_transform_rows)

lemma qr_solution_family:
  assumes "qr_solution margin_transform b v" and "qr_solution margin_transform b v'"
  shows "\<exists>s. v = solution_family v' test_vec s"
proof -
  from assms have eq: "mat_vec (transpose margin_transform) (mat_vec margin_transform v)
      = mat_vec (transpose margin_transform) (mat_vec margin_transform v')"
    by (simp add: qr_solution_def)
  from assms(1) have "length v = 8" by (rule qr_solution_length)
  then obtain a b c d e f' g' h where v: "v = [a, b, c, d, e, f', g', h]"
    by (rule length8_cases)
  from assms(2) have "length v' = 8" by (rule qr_solution_length)
  then obtain a' b' c' d' e' f'' g'' h' where v': "v' = [a', b', c', d', e', f'', g'', h']"
    by (rule length8_cases)
  from eq have
    "a + c + (a + b) + (a + e) = a' + c' + (a' + b') + (a' + e')"
    "b + d + (a + b) + (b + f') = b' + d' + (a' + b') + (b' + f'')"
    "a + c + (c + d) + (c + g') = a' + c' + (c' + d') + (c' + g'')"
    "b + d + (c + d) + (d + h) = b' + d' + (c' + d') + (d' + h')"
    "e + g' + (e + f') + (a + e) = e' + g'' + (e' + f'') + (a' + e')"
    "f' + h + (e + f') + (b + f') = f'' + h' + (e' + f'') + (b' + f'')"
    "e + g' + (g' + h) + (c + g') = e' + g'' + (g'' + h') + (c' + g'')"
    "f' + h + (g' + h) + (d + h) = f'' + h' + (g'' + h') + (d' + h')"
    unfolding v v' mat_vec_margin transpose_margin_entries by simp_all
  then have "b - b' = - (a - a')" "c - c' = - (a - a')" "d - d' = a - a'" "e - e' = - (a - a')"
    "f' - f'' = a - a'" "g' - g'' = a - a'" "h - h' = - (a - a')"
    by linarith+
  then have "v = solution_family v' test_vec (a - a')"
    unfolding v v' family_entries by simp
  then show ?thesis ..
qed

lemma family_compose:
  "length p = 8 \<Longrightarrow>
     solution_family (solution_family p test_vec s) test_vec z = solution_family p test_vec (s + z)"
  by (erule length8_cases) (simp add: family_entries)

lemma mix_family:
  "length p = 8 \<Longrightarrow>
     maxent_dist z (solution_family p test_vec L) (solution_family p test_vec H)
       = solution_family p test_vec (z * L + (1 - z) * H)"
  by (erule length8_cases) (simp add: family_entries maxent_dist_def vadd_def smul_def algebra_simps)


subsection \<open>The normal equations and the least residual\<close>









lemma mat_vec_margin_length: "length (mat_vec margin_transform v) = 12"
  by (simp add: mat_vec_def margin_transform_def)





subsection \<open>The maximum of the entropy on the feasible segment\<close>

lemma mix_in_interval:
  fixes zl zh z :: real
  assumes "zl \<le> zh" and "0 \<le> z" and "z \<le> 1"
  shows "zl \<le> z * zl + (1 - z) * zh" and "z * zl + (1 - z) * zh \<le> zh"
proof -
  have "z * zl + (1 - z) * zh = zl + (1 - z) * (zh - zl)" by (simp add: algebra_simps)
  moreover have "0 \<le> (1 - z) * (zh - zl)" using assms by simp
  ultimately show "zl \<le> z * zl + (1 - z) * zh" by simp
  have "z * zl + (1 - z) * zh = zh - z * (zh - zl)" by (simp add: algebra_simps)
  moreover have "0 \<le> z * (zh - zl)" using assms by simp
  ultimately show "z * zl + (1 - z) * zh \<le> zh" by simp
qed

lemma entropy_below_log_orthogonal:
  assumes len: "length v = 8"
    and int: "feasible_z_interval v test_vec = Inr (Some zl, Some zh)"
    and pos: "\<forall>x \<in> set (solution_family v test_vec t). 0 < x"
    and orth: "sum_list (p_vec (solution_family v test_vec t)) = 0"
    and z: "0 \<le> z" "z \<le> 1"
    and neq: "z * zl + (1 - z) * zh \<noteq> t"
  shows "entropy (maxent_dist z (solution_family v test_vec zl) (solution_family v test_vec zh))
     < entropy (solution_family v test_vec t)"
proof -
  define p where "p = solution_family v test_vec t"
  define u where "u = z * zl + (1 - z) * zh"
  have lp: "length p = 8" unfolding p_def using len by (rule family_length)
  from interval_tight [OF len int] have le: "zl \<le> zh"
    and feas: "\<And>z. (zl \<le> z \<and> z \<le> zh) \<longleftrightarrow> (\<forall>x \<in> set (solution_family v test_vec z). 0 \<le> x)"
    by auto
  have "zl \<le> u" "u \<le> zh" unfolding u_def using mix_in_interval [OF le z] by simp_all
  with feas have nn: "\<forall>x \<in> set (solution_family v test_vec u). 0 \<le> x" by blast
  have fam: "solution_family v test_vec u = solution_family p test_vec (u - t)"
    unfolding p_def using family_compose [OF len, of t "u - t"] by simp
  have G: "dot test_vec (map (log 2) p) = 0"
    using p_vec_log2 [OF lp] pos orth by (simp add: p_def)
  have pp: "\<forall>x \<in> set p. 0 < x" using pos by (simp add: p_def)
  have nn': "\<forall>x \<in> set (solution_family p test_vec (u - t)). 0 \<le> x"
    using nn by (simp only: fam)
  have ne: "u - t \<noteq> 0" using neq by (simp add: u_def)
  have "entropy (solution_family p test_vec (u - t))
     < entropy p - (u - t) * dot test_vec (map (log 2) p) / sum_list p"
    using lp pp nn' ne by (rule entropy_tangent)
  then have "entropy (solution_family v test_vec u) < entropy p"
    by (simp add: G fam)
  then show ?thesis
    by (simp add: mix_family [OF len] u_def p_def)
qed

lemma log_orthogonal_is_maximum:
  assumes len: "length v = 8"
    and int: "feasible_z_interval v test_vec = Inr (Some zl, Some zh)"
    and pos: "\<forall>x \<in> set (solution_family v test_vec t). 0 < x"
    and orth: "sum_list (p_vec (solution_family v test_vec t)) = 0"
  shows "\<forall>z_opt. optimize_maximum
            (\<lambda>z. entropy (maxent_dist z (solution_family v test_vec zl) (solution_family v test_vec zh)))
            0 1 z_opt
          \<longrightarrow> maxent_dist z_opt (solution_family v test_vec zl) (solution_family v test_vec zh)
                = solution_family v test_vec t"
    and "optimize_maximum
            (\<lambda>z. entropy (maxent_dist z (solution_family v test_vec zl) (solution_family v test_vec zh)))
            0 1 ((zh - t) / (zh - zl))"
    and "maxent_dist ((zh - t) / (zh - zl)) (solution_family v test_vec zl) (solution_family v test_vec zh)
                = solution_family v test_vec t"
proof -
  let ?obj = "\<lambda>z. entropy (maxent_dist z (solution_family v test_vec zl) (solution_family v test_vec zh))"
  from interval_tight [OF len int] have le: "zl \<le> zh"
    and feas: "\<And>z. (zl \<le> z \<and> z \<le> zh) \<longleftrightarrow> (\<forall>x \<in> set (solution_family v test_vec z). 0 \<le> x)"
    and ends: "0 \<in> set (solution_family v test_vec zl)" "0 \<in> set (solution_family v test_vec zh)"
    by auto
  from pos have "\<forall>x \<in> set (solution_family v test_vec t). 0 \<le> x"
    by (auto intro: less_imp_le)
  with feas have t: "zl \<le> t" "t \<le> zh" by blast+
  from ends pos have "zl \<noteq> t" "zh \<noteq> t" by auto
  with t have st: "zl < t" "t < zh" by simp_all
  define zs where "zs = (zh - t) / (zh - zl)"
  have zs: "0 \<le> zs" "zs \<le> 1" using st by (simp_all add: zs_def)
  have at: "zs * zl + (1 - zs) * zh = t"
  proof -
    have "zh - zl \<noteq> 0" using st by simp
    then have "zs * (zh - zl) = zh - t" by (simp add: zs_def)
    then show ?thesis by (simp add: algebra_simps)
  qed
  have hit: "maxent_dist zs (solution_family v test_vec zl) (solution_family v test_vec zh)
      = solution_family v test_vec t"
    by (simp add: mix_family [OF len] at)
  have below: "?obj z \<le> ?obj zs" if "0 \<le> z" "z \<le> 1" for z
  proof (cases "z * zl + (1 - z) * zh = t")
    case True
    then show ?thesis by (simp add: mix_family [OF len] at)
  next
    case False
    from entropy_below_log_orthogonal [OF len int pos orth that False]
    show ?thesis by (simp add: hit)
  qed
  show "optimize_maximum ?obj 0 1 ((zh - t) / (zh - zl))"
    using zs below by (simp add: optimize_maximum_def zs_def)
  show "maxent_dist ((zh - t) / (zh - zl)) (solution_family v test_vec zl) (solution_family v test_vec zh)
                = solution_family v test_vec t"
    using hit by (simp add: zs_def)
  show "\<forall>z_opt. optimize_maximum ?obj 0 1 z_opt
          \<longrightarrow> maxent_dist z_opt (solution_family v test_vec zl) (solution_family v test_vec zh)
                = solution_family v test_vec t"
  proof (intro allI impI)
    fix z_opt
    assume opt: "optimize_maximum ?obj 0 1 z_opt"
    then have zo: "0 \<le> z_opt" "z_opt \<le> 1" and best: "?obj zs \<le> ?obj z_opt"
      using zs by (simp_all add: optimize_maximum_def)
    have "z_opt * zl + (1 - z_opt) * zh = t"
    proof (rule ccontr)
      assume "z_opt * zl + (1 - z_opt) * zh \<noteq> t"
      from entropy_below_log_orthogonal [OF len int pos orth zo this] best
      show False by (simp add: hit)
    qed
    then show "maxent_dist z_opt (solution_family v test_vec zl) (solution_family v test_vec zh)
                = solution_family v test_vec t"
      by (simp add: mix_family [OF len])
  qed
qed

subsection \<open>Degenerate ground truths\<close>

lemma interval_exists:
  assumes "length v = 8" and "\<forall>x \<in> set (solution_family v test_vec t). 0 \<le> x"
  shows "\<exists>zl zh. feasible_z_interval v test_vec = Inr (Some zl, Some zh)"
proof -
  from assms(1) obtain a b c d e f' g' h where v: "v = [a, b, c, d, e, f', g', h]"
    by (rule length8_cases)
  from assms(2) have "max (- a) (max (- d) (max (- f') (- g'))) \<le> t"
    and "t \<le> min b (min c (min e h))"
    unfolding v family_entries by simp_all
  then have "\<not> max (- a) (max (- d) (max (- f') (- g'))) > min b (min c (min e h))"
    by linarith
  then show ?thesis unfolding v interval_entries by simp
qed

lemma pinned_family:
  assumes "length p = 8" and "pinned p"
    and "\<forall>x \<in> set (solution_family p test_vec u). 0 \<le> x"
  shows "u = 0"
proof -
  from assms(1) obtain a b c d e f' g' h where p: "p = [a, b, c, d, e, f', g', h]"
    by (rule length8_cases)
  from assms(2) have "a = 0 \<or> d = 0 \<or> f' = 0 \<or> g' = 0" "b = 0 \<or> c = 0 \<or> e = 0 \<or> h = 0"
    by (simp_all add: pinned_def p numeral_eq_Suc)
  moreover from assms(3) have "0 \<le> a + u" "0 \<le> d + u" "0 \<le> f' + u" "0 \<le> g' + u"
    "0 \<le> b - u" "0 \<le> c - u" "0 \<le> e - u" "0 \<le> h - u"
    unfolding p family_entries by simp_all
  ultimately show ?thesis by linarith
qed

lemma pinned_segment:
  assumes len: "length v = 8"
    and int: "feasible_z_interval v test_vec = Inr (Some zl, Some zh)"
    and pin: "pinned (solution_family v test_vec t)"
  shows "zl = t" and "zh = t"
proof -
  define p where "p = solution_family v test_vec t"
  have lp: "length p = 8" unfolding p_def using len by (rule family_length)
  from interval_tight [OF len int] have le: "zl \<le> zh"
    and feas: "\<And>z. (zl \<le> z \<and> z \<le> zh) \<longleftrightarrow> (\<forall>x \<in> set (solution_family v test_vec z). 0 \<le> x)"
    by auto
  have at: "z = t" if "zl \<le> z" "z \<le> zh" for z
  proof -
    from that feas have "\<forall>x \<in> set (solution_family v test_vec z). 0 \<le> x" by blast
    moreover have "solution_family v test_vec z = solution_family p test_vec (z - t)"
      unfolding p_def using family_compose [OF len, of t "z - t"] by simp
    ultimately have "z - t = 0"
      using pinned_family [OF lp, of "z - t"] pin by (simp add: p_def)
    then show ?thesis by simp
  qed
  from at [of zl] le show "zl = t" by simp
  from at [of zh] le show "zh = t" by simp
qed

lemma proportion_pinned:
  assumes "pX1 = 0 \<or> pX1 = 1 \<or> pX2 = 0 \<or> pX2 = 1"
  shows "pinned (proportion pX1 pX2 c0 b1 b2)"
  using assms by (auto simp: pinned_def proportion_entries numeral_eq_Suc)


subsection \<open>Recovering the ground truth\<close>

lemma truth_on_family:
  assumes "qr_solution margin_transform (pooled_estimate (proportion pX1 pX2 c0 b1 b2)) v"
  shows "length v = 8" and "\<exists>t. proportion pX1 pX2 c0 b1 b2 = solution_family v test_vec t"
proof -
  let ?p = "proportion pX1 pX2 c0 b1 b2"
  show len: "length v = 8" using assms by (rule qr_solution_length)
  have "qr_solution margin_transform (pooled_estimate ?p) ?p"
    unfolding pooled_estimate_consistent by (rule qr_solution_exact) (rule proportion_length)
  from qr_solution_family [OF this assms] obtain s where "?p = solution_family v test_vec s" ..
  then show "\<exists>t. ?p = solution_family v test_vec t" ..
qed

lemma recover_from_family:
  assumes range: "0 \<le> pX1" "pX1 \<le> 1" "0 \<le> pX2" "pX2 \<le> 1"
    and len: "length v = 8"
    and p: "proportion pX1 pX2 c0 b1 b2 = solution_family v test_vec t"
  shows "\<exists>z_lo z_hi. feasible_z_interval v test_vec = Inr (Some z_lo, Some z_hi)
     \<and> (\<forall>z_opt. optimize_maximum
            (\<lambda>z. entropy (maxent_dist z (solution_family v test_vec z_lo) (solution_family v test_vec z_hi)))
            0 1 z_opt
          \<longrightarrow> maxent_dist z_opt (solution_family v test_vec z_lo) (solution_family v test_vec z_hi)
                = proportion pX1 pX2 c0 b1 b2)
     \<and> (\<exists>z_opt. optimize_maximum
            (\<lambda>z. entropy (maxent_dist z (solution_family v test_vec z_lo) (solution_family v test_vec z_hi)))
            0 1 z_opt)"
proof -
  let ?p = "proportion pX1 pX2 c0 b1 b2"
  have nn: "\<forall>x \<in> set (solution_family v test_vec t). 0 \<le> x"
    using proportion_nonneg [OF range, of c0 b1 b2] by (simp only: p)
  from interval_exists [OF len nn] obtain zl zh
    where int: "feasible_z_interval v test_vec = Inr (Some zl, Some zh)" by blast
  let ?obj = "\<lambda>z. entropy (maxent_dist z (solution_family v test_vec zl) (solution_family v test_vec zh))"
  have "(\<forall>z_opt. optimize_maximum ?obj 0 1 z_opt
          \<longrightarrow> maxent_dist z_opt (solution_family v test_vec zl) (solution_family v test_vec zh) = ?p)
     \<and> (\<exists>z_opt. optimize_maximum ?obj 0 1 z_opt)"
  proof (cases "0 < pX1 \<and> pX1 < 1 \<and> 0 < pX2 \<and> pX2 < 1")
    case True
    then have r: "0 < pX1" "pX1 < 1" "0 < pX2" "pX2 < 1" by simp_all
    have pos: "\<forall>x \<in> set (solution_family v test_vec t). 0 < x"
      using proportion_positive [OF r, of c0 b1 b2] by (simp only: p)
    have orth: "sum_list (p_vec (solution_family v test_vec t)) = 0"
      using proportion_p_vec [OF r, of c0 b1 b2] by (simp only: p)
    from log_orthogonal_is_maximum(1,2) [OF len int pos orth] show ?thesis
      by (simp only: p) blast
  next
    case False
    with range have "pX1 = 0 \<or> pX1 = 1 \<or> pX2 = 0 \<or> pX2 = 1" by auto
    then have "pinned ?p" by (rule proportion_pinned)
    then have pin: "pinned (solution_family v test_vec t)" by (simp only: p)
    from pinned_segment [OF len int pin] have z: "zl = t" "zh = t" .
    have mix: "maxent_dist z (solution_family v test_vec zl) (solution_family v test_vec zh) = ?p" for z
      by (simp add: mix_family [OF len] z p algebra_simps)
    have "optimize_maximum ?obj 0 1 0"
      by (simp add: optimize_maximum_def mix)
    with mix show ?thesis by blast
  qed
  with int show ?thesis by blast
qed

text \<open>
  Claim C1. Take any ground truth of the example's form: \<open>x1\<close> and \<open>x2\<close>
  independent with probabilities \<open>pX1\<close>, \<open>pX2\<close> in \<open>[0, 1]\<close>, and
  \<open>P[y = TRUE] = sigmoid (c0 + b1 * x1 + b2 * x2)\<close>. Run the pipeline on its
  margins: pooled estimate, any vector \<open>v\<close> the QR solve may return, the rescaled
  null vector, the interval and its two extreme solutions, and any point
  \<open>z_opt\<close> that \<^verbatim>\<open>optimize\<close> may return as a maximum of the entropy of the mix.
  Then the interval exists, a maximum exists, and \<^verbatim>\<open>maxent_dist\<close> is the ground
  truth itself.
\<close>

theorem maxent_recovers_ground_truth:
  assumes "0 \<le> pX1" "pX1 \<le> 1" "0 \<le> pX2" "pX2 \<le> 1"
    and "qr_solution margin_transform (pooled_estimate (proportion pX1 pX2 c0 b1 b2)) v"
    and "null_result margin_transform raw" and "ns raw = Inr n"
  shows "\<exists>z_lo z_hi. feasible_z_interval v n = Inr (Some z_lo, Some z_hi)
     \<and> (\<forall>z_opt. optimize_maximum
            (\<lambda>z. entropy (maxent_dist z (solution_family v n z_lo) (solution_family v n z_hi)))
            0 1 z_opt
          \<longrightarrow> maxent_dist z_opt (solution_family v n z_lo) (solution_family v n z_hi)
                = proportion pX1 pX2 c0 b1 b2)
     \<and> (\<exists>z_opt. optimize_maximum
            (\<lambda>z. entropy (maxent_dist z (solution_family v n z_lo) (solution_family v n z_hi)))
            0 1 z_opt)"
proof -
  from ns_value [OF assms(6)] assms(7) have n: "n = test_vec" by simp
  from truth_on_family [OF assms(5)] obtain t where len: "length v = 8"
    and p: "proportion pX1 pX2 c0 b1 b2 = solution_family v test_vec t" by blast
  from recover_from_family [OF assms(1-4) len p] show ?thesis
    unfolding n .
qed


theorem maxent_recovers_ground_truth_witness:
  "\<exists>z_lo z_hi z_opt.
     feasible_z_interval (proportion (3/10) (4/5) (5772157/10000000) pi (- 3 * exp 1))
        [1, - 1, - 1, 1, - 1, 1, 1, - 1] = Inr (Some z_lo, Some z_hi)
     \<and> optimize_maximum
          (\<lambda>z. entropy (maxent_dist z
             (solution_family (proportion (3/10) (4/5) (5772157/10000000) pi (- 3 * exp 1))
                [1, - 1, - 1, 1, - 1, 1, 1, - 1] z_lo)
             (solution_family (proportion (3/10) (4/5) (5772157/10000000) pi (- 3 * exp 1))
                [1, - 1, - 1, 1, - 1, 1, 1, - 1] z_hi)))
          0 1 z_opt
     \<and> maxent_dist z_opt
          (solution_family (proportion (3/10) (4/5) (5772157/10000000) pi (- 3 * exp 1))
             [1, - 1, - 1, 1, - 1, 1, 1, - 1] z_lo)
          (solution_family (proportion (3/10) (4/5) (5772157/10000000) pi (- 3 * exp 1))
             [1, - 1, - 1, 1, - 1, 1, 1, - 1] z_hi)
        = proportion (3/10) (4/5) (5772157/10000000) pi (- 3 * exp 1)"
proof -
  let ?p = "proportion (3/10) (4/5) (5772157/10000000) pi (- 3 * exp 1)"
  let ?n = "[1, - 1, - 1, 1, - 1, 1, 1, - 1 :: real]"
  have r: "(0::real) \<le> 3/10" "(3/10::real) \<le> 1" "(0::real) \<le> 4/5" "(4/5::real) \<le> 1"
    by simp_all
  have q: "qr_solution margin_transform (pooled_estimate ?p) ?p"
    unfolding pooled_estimate_consistent by (rule qr_solution_exact) (rule proportion_length)
  have h: "null_result margin_transform ?n"
    by (simp add: null_result_def mat_vec_margin margin_transform_rows margin_transform_length replicate_12)
  have e: "ns ?n = Inr ?n"
    by (simp add: ns_def mean_def)
  from maxent_recovers_ground_truth [OF r q h e] show ?thesis by blast
qed

subsection \<open>What the maximum-entropy point is orthogonal to\<close>

lemma sigmoid_ln_2: "sigmoid (ln 2) = 2 / 3"
  by (simp add: sigmoid_def exp_minus)

lemma tilted_example:
  "proportion (3/10) (4/5) (ln 2) 0 0 = [7/150, 1/50, 14/75, 2/25, 7/75, 1/25, 28/75, 4/25]"
  by (simp add: proportion_entries sigmoid_ln_2)

lemma tilted_interval:
  "feasible_z_interval [7/150, 1/50, 14/75, 2/25, 7/75, 1/25, 28/75, 4/25] test_vec
     = Inr (Some (- 1/25), Some (1/50))"
  by (simp add: interval_entries)

lemma family_zero: "length p = 8 \<Longrightarrow> solution_family p test_vec 0 = p"
  by (erule length8_cases) (simp add: family_entries)

text \<open>
  Claim C3 as stated fails. For the ground truth with \<open>pX1 = 0.3\<close>, \<open>pX2 = 0.8\<close>,
  \<open>c0 = ln 2\<close> and \<open>b1 = b2 = 0\<close> the maximum of the entropy on the segment is
  at \<open>z = 1/3\<close>, where the mix is the ground truth, and that vector is not
  orthogonal to \<^verbatim>\<open>ns\<close>: the inner product is \<open>2/25\<close>. The point of the
  segment that is orthogonal to \<^verbatim>\<open>ns\<close> is the mix at \<open>z = 1/2\<close>, and its
  entropy is strictly smaller.
\<close>

theorem maxent_not_orthogonal_counterexample:
  fixes p r1 r2 n :: vec
  defines "n \<equiv> [1, - 1, - 1, 1, - 1, 1, 1, - 1]"
  defines "p \<equiv> proportion (3/10) (4/5) (ln 2) 0 0"
  defines "r1 \<equiv> solution_family p n (- 1/25)"
  defines "r2 \<equiv> solution_family p n (1/50)"
  shows "feasible_z_interval p n = Inr (Some (- 1/25), Some (1/50))
    \<and> optimize_maximum (\<lambda>z. entropy (maxent_dist z r1 r2)) 0 1 (1/3)
    \<and> maxent_dist (1/3) r1 r2 = p
    \<and> dot (maxent_dist (1/3) r1 r2) n = 2/25
    \<and> dot (maxent_dist (1/2) r1 r2) n = 0
    \<and> entropy (maxent_dist (1/2) r1 r2) < entropy (maxent_dist (1/3) r1 r2)"
proof -
  let ?q = "[7/150, 1/50, 14/75, 2/25, 7/75, 1/25, 28/75, 4/25 :: real]"
  have n: "n = test_vec" by (simp add: n_def test_vec_value)
  have p: "p = ?q" unfolding p_def by (rule tilted_example)
  have len: "length p = 8" by (simp add: p)
  have int: "feasible_z_interval p test_vec = Inr (Some (- 1/25), Some (1/50))"
    unfolding p by (rule tilted_interval)
  have r: "(0::real) < 3/10" "(3/10::real) < 1" "(0::real) < 4/5" "(4/5::real) < 1" by simp_all
  have fz: "solution_family p test_vec 0 = p" using len by (rule family_zero)
  have "\<forall>x \<in> set p. 0 < x"
    unfolding p_def by (rule proportion_positive [OF r])
  then have pos: "\<forall>x \<in> set (solution_family p test_vec 0). 0 < x"
    by (simp only: fz)
  have "sum_list (p_vec p) = 0"
    unfolding p_def by (rule proportion_p_vec [OF r])
  then have orth: "sum_list (p_vec (solution_family p test_vec 0)) = 0"
    by (simp only: fz)
  have A: "optimize_maximum (\<lambda>z. entropy (maxent_dist z r1 r2)) 0 1 (1/3)"
    using log_orthogonal_is_maximum(2) [OF len int pos orth] by (simp add: r1_def r2_def n)
  have B: "maxent_dist (1/3) r1 r2 = p"
    using log_orthogonal_is_maximum(3) [OF len int pos orth]
    by (simp add: r1_def r2_def n fz)
  have C: "dot p n = 2/25"
    by (simp add: p n_def dot_def)
  have D: "dot (maxent_dist (1/2) r1 r2) n = 0"
    unfolding r1_def r2_def n mix_family [OF len]
    by (simp add: p family_entries) (simp add: test_vec_value dot_def)
  have "entropy (maxent_dist (1/2) r1 r2) < entropy (solution_family p test_vec 0)"
    unfolding r1_def r2_def n
    by (rule entropy_below_log_orthogonal [OF len int pos orth]) simp_all
  then have E: "entropy (maxent_dist (1/2) r1 r2) < entropy (maxent_dist (1/3) r1 r2)"
    by (simp add: B fz)
  from int A B C D E show ?thesis by (simp add: n)
qed


lemma family_injective:
  assumes "length v = 8" and "solution_family v test_vec t = solution_family v test_vec t'"
  shows "t = t'"
proof -
  from assms(1) obtain a b c d e f' g' h where "v = [a, b, c, d, e, f', g', h]"
    by (rule length8_cases)
  with assms(2) show ?thesis by (simp add: family_entries)
qed

text \<open>
  On a feasible interval with \<open>z_lo < z_hi\<close> the family has a strictly positive
  point whose logarithm is orthogonal to \<^verbatim>\<open>ns\<close>. In terms of the entries the
  condition says that the product of the four entries that grow with \<open>z\<close>
  equals the product of the four that shrink; the first product vanishes at
  \<open>z_lo\<close>, the second at \<open>z_hi\<close>, and their difference is continuous.
\<close>

lemma log_orthogonal_exists:
  assumes len: "length v = 8"
    and int: "feasible_z_interval v test_vec = Inr (Some zl, Some zh)"
    and lt: "zl < zh"
  shows "\<exists>t. zl < t \<and> t < zh
     \<and> (\<forall>x \<in> set (solution_family v test_vec t). 0 < x)
     \<and> sum_list (p_vec (solution_family v test_vec t)) = 0"
proof -
  from len obtain a b c d e f' g' h where v: "v = [a, b, c, d, e, f', g', h]"
    by (rule length8_cases)
  define k where "k z = (a + z) * (d + z) * (f' + z) * (g' + z) - (b - z) * (c - z) * (e - z) * (h - z)"
    for z :: real
  from int have zl: "zl = max (- a) (max (- d) (max (- f') (- g')))"
    and zh: "zh = min b (min c (min e h))"
    unfolding v interval_entries by (simp_all split: if_splits)
  have "zl \<in> {- a, - d, - f', - g'}" unfolding zl by (rule max4_cases)
  then have lo0: "(a + zl) * (d + zl) * (f' + zl) * (g' + zl) = 0" by auto
  have "zh \<in> {b, c, e, h}" unfolding zh by (rule min4_cases)
  then have hi0: "(b - zh) * (c - zh) * (e - zh) * (h - zh) = 0" by auto
  have up: "zh \<le> b" "zh \<le> c" "zh \<le> e" "zh \<le> h" unfolding zh by simp_all
  have dn: "- a \<le> zl" "- d \<le> zl" "- f' \<le> zl" "- g' \<le> zl" unfolding zl by simp_all
  have "0 < (b - zl) * (c - zl) * (e - zl) * (h - zl)"
    using up lt by (intro mult_pos_pos) simp_all
  moreover have "k zl = 0 - (b - zl) * (c - zl) * (e - zl) * (h - zl)"
    unfolding k_def by (simp only: lo0)
  ultimately have klo: "k zl < 0" by linarith
  have "0 < (a + zh) * (d + zh) * (f' + zh) * (g' + zh)"
    using dn lt by (intro mult_pos_pos) simp_all
  moreover have "k zh = (a + zh) * (d + zh) * (f' + zh) * (g' + zh) - 0"
    unfolding k_def by (simp only: hi0)
  ultimately have khi: "0 < k zh" by linarith
  have "continuous_on {zl..zh} k"
    unfolding k_def by (intro continuous_intros)
  with klo khi lt have "\<exists>t\<ge>zl. t \<le> zh \<and> k t = 0"
    by (intro IVT') simp_all
  then obtain t where t: "zl \<le> t" "t \<le> zh" and kt: "k t = 0" by blast
  from kt klo khi have "t \<noteq> zl" "t \<noteq> zh" by auto
  with t have st: "zl < t" "t < zh" by simp_all
  have pos: "0 < a + t" "0 < b - t" "0 < c - t" "0 < d + t" "0 < e - t" "0 < f' + t" "0 < g' + t" "0 < h - t"
    using st up dn by simp_all
  from kt have "(a + t) * (d + t) * (f' + t) * (g' + t) = (b - t) * (c - t) * (e - t) * (h - t)"
    by (simp add: k_def)
  with log_orthogonal_iff(1) [OF pos]
  have "sum_list (p_vec (solution_family v test_vec t)) = 0"
    unfolding v family_entries by simp
  moreover have "\<forall>x \<in> set (solution_family v test_vec t). 0 < x"
    unfolding v family_entries using pos by simp
  ultimately show ?thesis using st by blast
qed

text \<open>
  Claim C3, as amended. Whenever the feasible interval has \<open>z_lo < z_hi\<close>, the
  feasible family has exactly one strictly positive point whose elementwise
  logarithm is orthogonal to \<^verbatim>\<open>ns\<close> (\<^verbatim>\<open>sum(test_vec * log(p)) = 0\<close>, the check
  of the write-up); it lies strictly inside the interval, every maximum of the
  entropy on the segment is that point, and the maximum is attained. Every
  additive-logit ground truth with independent \<open>x1\<close>, \<open>x2\<close> of probabilities
  strictly between 0 and 1 is strictly positive and satisfies the condition.
\<close>

theorem maxent_is_log_orthogonal_point:
  assumes "null_result margin_transform raw" and "ns raw = Inr n" and "length v0 = 8"
    and "feasible_z_interval v0 n = Inr (Some z_lo, Some z_hi)"
    and "z_lo < z_hi"
  shows "(\<exists>t. z_lo < t \<and> t < z_hi
       \<and> (\<forall>x \<in> set (solution_family v0 n t). 0 < x)
       \<and> sum_list (p_vec (solution_family v0 n t)) = 0
       \<and> (\<forall>t'. (\<forall>x \<in> set (solution_family v0 n t'). 0 < x)
              \<and> sum_list (p_vec (solution_family v0 n t')) = 0 \<longrightarrow> t' = t)
       \<and> (\<forall>z_opt. optimize_maximum
            (\<lambda>z. entropy (maxent_dist z (solution_family v0 n z_lo) (solution_family v0 n z_hi)))
            0 1 z_opt
          \<longrightarrow> maxent_dist z_opt (solution_family v0 n z_lo) (solution_family v0 n z_hi)
                = solution_family v0 n t))
     \<and> (\<exists>z_opt. optimize_maximum
            (\<lambda>z. entropy (maxent_dist z (solution_family v0 n z_lo) (solution_family v0 n z_hi)))
            0 1 z_opt)
     \<and> (\<forall>pX1 pX2 c0 b1 b2. 0 < pX1 \<and> pX1 < 1 \<and> 0 < pX2 \<and> pX2 < 1 \<longrightarrow>
            (\<forall>x \<in> set (proportion pX1 pX2 c0 b1 b2). 0 < x)
            \<and> sum_list (p_vec (proportion pX1 pX2 c0 b1 b2)) = 0)"
proof -
  from ns_value [OF assms(1)] assms(2) have n: "n = test_vec" by simp
  note len = assms(3)
  note int = assms(4) [unfolded n]
  from log_orthogonal_exists [OF len int assms(5)] obtain t
    where st: "z_lo < t" "t < z_hi"
      and pos: "\<forall>x \<in> set (solution_family v0 test_vec t). 0 < x"
      and orth: "sum_list (p_vec (solution_family v0 test_vec t)) = 0"
    by blast
  let ?r1 = "solution_family v0 test_vec z_lo"
  let ?r2 = "solution_family v0 test_vec z_hi"
  let ?obj = "\<lambda>z. entropy (maxent_dist z ?r1 ?r2)"
  have A: "\<forall>z_opt. optimize_maximum ?obj 0 1 z_opt
      \<longrightarrow> maxent_dist z_opt ?r1 ?r2 = solution_family v0 test_vec t"
    using len int pos orth by (rule log_orthogonal_is_maximum(1))
  have opt: "optimize_maximum ?obj 0 1 ((z_hi - t) / (z_hi - z_lo))"
    using len int pos orth by (rule log_orthogonal_is_maximum(2))
  then have B: "\<exists>z_opt. optimize_maximum ?obj 0 1 z_opt" ..
  have C: "t' = t"
    if "\<forall>x \<in> set (solution_family v0 test_vec t'). 0 < x"
      and "sum_list (p_vec (solution_family v0 test_vec t')) = 0" for t'
  proof -
    from log_orthogonal_is_maximum(1) [OF len int that] opt
    have "maxent_dist ((z_hi - t) / (z_hi - z_lo)) ?r1 ?r2 = solution_family v0 test_vec t'"
      by blast
    moreover from A opt
    have "maxent_dist ((z_hi - t) / (z_hi - z_lo)) ?r1 ?r2 = solution_family v0 test_vec t"
      by blast
    ultimately have "solution_family v0 test_vec t' = solution_family v0 test_vec t"
      by simp
    with len show ?thesis by (rule family_injective)
  qed
  have D: "(\<forall>x \<in> set (proportion pX1 pX2 c0 b1 b2). 0 < x)
      \<and> sum_list (p_vec (proportion pX1 pX2 c0 b1 b2)) = 0"
    if "0 < pX1 \<and> pX1 < 1 \<and> 0 < pX2 \<and> pX2 < 1" for pX1 pX2 c0 b1 b2
    using that proportion_positive [of pX1 pX2 c0 b1 b2] proportion_p_vec [of pX1 pX2 c0 b1 b2]
    by blast
  from st pos orth A C have "\<exists>t. z_lo < t \<and> t < z_hi
       \<and> (\<forall>x \<in> set (solution_family v0 test_vec t). 0 < x)
       \<and> sum_list (p_vec (solution_family v0 test_vec t)) = 0
       \<and> (\<forall>t'. (\<forall>x \<in> set (solution_family v0 test_vec t'). 0 < x)
              \<and> sum_list (p_vec (solution_family v0 test_vec t')) = 0 \<longrightarrow> t' = t)
       \<and> (\<forall>z_opt. optimize_maximum ?obj 0 1 z_opt
          \<longrightarrow> maxent_dist z_opt ?r1 ?r2 = solution_family v0 test_vec t)"
    by blast
  with B D show ?thesis unfolding n by blast
qed

theorem maxent_is_log_orthogonal_point_witness:
  "\<exists>z_opt.
     optimize_maximum
       (\<lambda>z. entropy (maxent_dist z
          (solution_family [7/150, 1/50, 14/75, 2/25, 7/75, 1/25, 28/75, 4/25]
             [1, - 1, - 1, 1, - 1, 1, 1, - 1] (- 1/25))
          (solution_family [7/150, 1/50, 14/75, 2/25, 7/75, 1/25, 28/75, 4/25]
             [1, - 1, - 1, 1, - 1, 1, 1, - 1] (1/50))))
       0 1 z_opt
     \<and> maxent_dist z_opt
          (solution_family [7/150, 1/50, 14/75, 2/25, 7/75, 1/25, 28/75, 4/25]
             [1, - 1, - 1, 1, - 1, 1, 1, - 1] (- 1/25))
          (solution_family [7/150, 1/50, 14/75, 2/25, 7/75, 1/25, 28/75, 4/25]
             [1, - 1, - 1, 1, - 1, 1, 1, - 1] (1/50))
        = [7/150, 1/50, 14/75, 2/25, 7/75, 1/25, 28/75, 4/25]
     \<and> sum_list (p_vec [7/150, 1/50, 14/75, 2/25, 7/75, 1/25, 28/75, 4/25]) = 0"
proof -
  let ?q = "[7/150, 1/50, 14/75, 2/25, 7/75, 1/25, 28/75, 4/25 :: real]"
  let ?n = "[1, - 1, - 1, 1, - 1, 1, 1, - 1 :: real]"
  have n: "?n = test_vec" by (simp add: test_vec_value)
  have h: "null_result margin_transform ?n"
    by (simp add: null_result_def mat_vec_margin margin_transform_rows margin_transform_length replicate_12)
  have e: "ns ?n = Inr ?n"
    by (simp add: ns_def mean_def)
  have len: "length ?q = 8" by simp
  have int: "feasible_z_interval ?q ?n = Inr (Some (- 1/25), Some (1/50))"
    unfolding n by (rule tilted_interval)
  have lt: "(- 1/25 :: real) < 1/50" by simp
  have fz: "solution_family ?q ?n 0 = ?q"
    unfolding n by (rule family_zero) simp
  have r: "(0::real) < 3/10" "(3/10::real) < 1" "(0::real) < 4/5" "(4/5::real) < 1" by simp_all
  have pos: "\<forall>x \<in> set (solution_family ?q ?n 0). 0 < x"
    unfolding fz by simp
  have o: "sum_list (p_vec ?q) = 0"
    using proportion_p_vec [OF r, of "ln 2" 0 0] by (simp only: tilted_example)
  then have orth: "sum_list (p_vec (solution_family ?q ?n 0)) = 0"
    by (simp only: fz)
  from maxent_is_log_orthogonal_point [OF h e len int lt] obtain t z_opt where
    u: "\<forall>t'. (\<forall>x \<in> set (solution_family ?q ?n t'). 0 < x)
              \<and> sum_list (p_vec (solution_family ?q ?n t')) = 0 \<longrightarrow> t' = t"
    and m: "\<forall>z_opt. optimize_maximum
       (\<lambda>z. entropy (maxent_dist z (solution_family ?q ?n (- 1/25)) (solution_family ?q ?n (1/50))))
       0 1 z_opt \<longrightarrow>
       maxent_dist z_opt (solution_family ?q ?n (- 1/25)) (solution_family ?q ?n (1/50))
       = solution_family ?q ?n t"
    and z: "optimize_maximum
       (\<lambda>z. entropy (maxent_dist z (solution_family ?q ?n (- 1/25)) (solution_family ?q ?n (1/50))))
       0 1 z_opt"
    by blast
  from u pos orth have "0 = t" by blast
  with m z have "maxent_dist z_opt (solution_family ?q ?n (- 1/25)) (solution_family ?q ?n (1/50))
       = solution_family ?q ?n 0"
    by blast
  with fz o z show ?thesis by auto
qed

subsection \<open>The maximum on the segment is attained\<close>

lemma x_ln_x_bound:
  fixes x :: real
  assumes "0 < x" "x < 1"
  shows "\<bar>x * ln x\<bar> \<le> 2 * sqrt x"
proof -
  have s: "0 < sqrt x" using assms by simp
  have "ln (1 / sqrt x) \<le> 1 / sqrt x - 1"
    using s by (intro ln_le_minus_one) simp
  also have "\<dots> \<le> 1 / sqrt x" by simp
  finally have "- ln (sqrt x) \<le> 1 / sqrt x"
    using s by (simp add: ln_div)
  then have "- (ln x / 2) \<le> 1 / sqrt x"
    using assms by (simp add: ln_sqrt)
  then have "- ln x \<le> 2 / sqrt x" by simp
  then have "x * (- ln x) \<le> x * (2 / sqrt x)"
    using assms by (intro mult_left_mono) simp_all
  also have "x * (2 / sqrt x) = 2 * (x / sqrt x)" by simp
  also have "\<dots> = 2 * sqrt x"
    using assms by (simp only: real_div_sqrt [OF less_imp_le])
  finally have "- (x * ln x) \<le> 2 * sqrt x" by simp
  moreover have "x * ln x \<le> 0"
    using assms by (simp add: mult_nonneg_nonpos)
  ultimately show ?thesis by simp
qed

lemma isCont_x_ln_x: "isCont (\<lambda>x::real. x * ln x) x"
proof (cases "x = 0")
  case False
  then show ?thesis by (intro continuous_intros) simp
next
  case True
  have "(\<lambda>x::real. x * ln x) \<midarrow>0\<rightarrow> 0"
  proof (rule LIM_I)
    fix r :: real
    assume r: "0 < r"
    define s where "s = min 1 ((r / 2)\<^sup>2)"
    have s: "0 < s" using r by (simp add: s_def)
    have key: "norm (y * ln y - 0) < r" if "y \<noteq> 0 \<and> norm (y - 0) < s" for y :: real
    proof -
      from that have y: "0 < \<bar>y\<bar>" "\<bar>y\<bar> < 1" "\<bar>y\<bar> < (r / 2)\<^sup>2"
        by (simp_all add: s_def)
      have "ln \<bar>y\<bar> = ln y"
        by (cases "0 \<le> y") (simp_all add: ln_minus)
      then have "\<bar>y * ln y\<bar> = \<bar>\<bar>y\<bar> * ln \<bar>y\<bar>\<bar>"
        by (simp add: abs_mult)
      also have "\<dots> \<le> 2 * sqrt \<bar>y\<bar>"
        using y(1,2) by (rule x_ln_x_bound)
      also have "sqrt \<bar>y\<bar> < sqrt ((r / 2)\<^sup>2)"
        using y(3) by (simp only: real_sqrt_less_iff)
      then have "2 * sqrt \<bar>y\<bar> < r" using r by simp
      finally show ?thesis by simp
    qed
    from key have "\<forall>y::real. y \<noteq> 0 \<and> norm (y - 0) < s \<longrightarrow> norm (y * ln y - 0) < r"
      by blast
    with s show "\<exists>s>0. \<forall>y::real. y \<noteq> 0 \<and> norm (y - 0) < s \<longrightarrow> norm (y * ln y - 0) < r"
      by blast
  qed
  with True show ?thesis by (simp add: isCont_def)
qed

lemma xlog2_max: "xlog2 x = (max x 0 * ln (max x 0)) / ln 2"
  by (simp add: xlog2_def log_def max_def)

lemma isCont_xlog2: "isCont xlog2 x"
proof -
  have c1: "isCont (\<lambda>x. max x (0::real)) x"
    by (intro continuous_intros)
  have c2: "isCont (\<lambda>y::real. y * ln y) (max x 0)"
    by (rule isCont_x_ln_x)
  from isCont_o2 [OF c1 c2] have "isCont (\<lambda>x. max x 0 * ln (max x 0)) x" .
  then have "isCont (\<lambda>x. (max x 0 * ln (max x 0)) / ln 2) x"
    by (rule continuous_divide) simp_all
  then show ?thesis by (simp add: xlog2_max [abs_def])
qed


lemma isCont_xlog2_comp: "isCont k z \<Longrightarrow> isCont (\<lambda>z. xlog2 (k z)) z"
  by (rule isCont_o2 [OF _ isCont_xlog2])

lemma entropy_xlog2:
  assumes "\<forall>x \<in> set v. 0 \<le> x" and "0 < sum_list v"
  shows "entropy v = log 2 (sum_list v) - sum_list (map xlog2 v) / sum_list v"
  using entropy_expand [OF assms] by (simp add: xlog2_def [abs_def])

lemma segment_maximum_exists:
  assumes len: "length v = 8"
    and int: "feasible_z_interval v test_vec = Inr (Some zl, Some zh)"
    and S: "0 < sum_list v"
  shows "\<exists>z_opt. optimize_maximum
      (\<lambda>z. entropy (maxent_dist z (solution_family v test_vec zl) (solution_family v test_vec zh)))
      0 1 z_opt"
proof -
  let ?obj = "\<lambda>z. entropy (maxent_dist z (solution_family v test_vec zl) (solution_family v test_vec zh))"
  from len obtain a b c d e f' g' h where v: "v = [a, b, c, d, e, f', g', h]"
    by (rule length8_cases)
  define u where "u = (\<lambda>z. z * zl + (1 - z) * zh)"
  define phi where "phi = (\<lambda>z. log 2 (sum_list v)
     - (xlog2 (a + u z) + (xlog2 (b - u z) + (xlog2 (c - u z) + (xlog2 (d + u z)
        + (xlog2 (e - u z) + (xlog2 (f' + u z) + (xlog2 (g' + u z) + xlog2 (h - u z)))))))) / sum_list v)"
  from interval_tight [OF len int] have le: "zl \<le> zh"
    and feas: "\<And>z. (zl \<le> z \<and> z \<le> zh) \<longleftrightarrow> (\<forall>x \<in> set (solution_family v test_vec z). 0 \<le> x)"
    by auto
  have agree: "?obj z = phi z" if "0 \<le> z" "z \<le> 1" for z
  proof -
    have "zl \<le> u z" "u z \<le> zh"
      unfolding u_def using mix_in_interval [OF le that] by simp_all
    with feas have nn: "\<forall>x \<in> set (solution_family v test_vec (u z)). 0 \<le> x" by blast
    have sum: "sum_list (solution_family v test_vec (u z)) = sum_list v"
      using len by (rule sum_list_family)
    have "entropy (solution_family v test_vec (u z)) = phi z"
      using entropy_xlog2 [OF nn] S unfolding sum
      by (simp add: phi_def) (simp add: v family_entries)
    then show ?thesis by (simp add: mix_family [OF len] u_def)
  qed
  have cu: "isCont u z" for z
    unfolding u_def by (intro continuous_intros)
  have "isCont phi z" for z
    unfolding phi_def
    by (intro continuous_intros isCont_xlog2_comp cu) (use S in simp)
  then have "continuous_on {0..1} phi"
    by (intro continuous_at_imp_continuous_on) simp
  moreover have "compact {0..1::real}" by simp
  moreover have "{0..1::real} \<noteq> {}" by simp
  ultimately obtain x where x: "x \<in> {0..1}" "\<forall>y \<in> {0..1}. phi y \<le> phi x"
    using continuous_attains_sup [of "{0..1::real}" phi] by blast
  have "optimize_maximum ?obj 0 1 x"
    unfolding optimize_maximum_def
  proof (intro conjI allI impI)
    show "0 \<le> x" "x \<le> 1" using x(1) by simp_all
  next
    fix z' :: real
    assume z': "0 \<le> z' \<and> z' \<le> 1"
    with x(2) have "phi z' \<le> phi x" by simp
    with z' x(1) show "?obj z' \<le> ?obj x" by (simp add: agree)
  qed
  then show ?thesis ..
qed

subsection \<open>The worked example\<close>

lemma shown_joint:
  "dxe (d1a d1_shown) (d2a d2_shown) =
     [((Some 0, Some 0), 14 / 100), ((Some 1, Some 0), 6 / 100),
      ((Some 0, Some 1), 56 / 100), ((Some 1, Some 1), 24 / 100)]"
proof -
  have A: "d1a d1_shown = [(Some 0, 7 / 10), (Some 1, 3 / 10)]"
    by (simp add: d1a_def d1_shown_def aggregate_sum_def)
  have B: "d2a d2_shown = [(Some 0, 2 / 10), (Some 1, 8 / 10)]"
    by (simp add: d2a_def d2_shown_def aggregate_sum_def)
  show ?thesis by (simp only: A B dxe_two_levels) simp
qed

lemma shown_estimate:
  "estimated_proportions d1_shown d2_shown (dxe (d1a d1_shown) (d2a d2_shown)) =
     [6100538 / 10000000, 2386123 / 10000000, 899462 / 10000000, 613877 / 10000000,
      517616 / 10000000, 7969046 / 10000000, 1482384 / 10000000, 30954 / 10000000,
      14 / 100, 6 / 100, 56 / 100, 24 / 100]"
  by (simp only: shown_joint) (simp add: estimated_proportions_def d1_shown_def d2_shown_def)

lemma shown_solution_qr:
  "qr_solution margin_transform
     (estimated_proportions d1_shown d2_shown (dxe (d1a d1_shown) (d2a d2_shown))) shown_solution"
  unfolding shown_estimate
  by (simp add: qr_solution_def margin_transform_rows shown_solution_def mat_vec_margin
      transpose_margin_entries)

lemma shown_interval:
  "feasible_z_interval shown_solution test_vec
     = Inr (Some (- 3094987 / 80000000), Some (- 2958367 / 80000000))"
  by (simp add: shown_solution_def interval_entries)


lemma segment_of_family:
  assumes len: "length v = 8"
    and int: "feasible_z_interval v test_vec = Inr (Some L, Some H)"
  shows "feasible_z_interval (solution_family v test_vec s) test_vec
     = Inr (Some (L - s), Some (H - s))"
proof -
  define v' where "v' = solution_family v test_vec s"
  have len': "length v' = 8" unfolding v'_def using len by (rule family_length)
  have fam: "solution_family v' test_vec z = solution_family v test_vec (s + z)" for z
    unfolding v'_def using len by (rule family_compose)
  from interval_tight [OF len int] have le: "L \<le> H"
    and feas: "\<And>z. (L \<le> z \<and> z \<le> H) \<longleftrightarrow> (\<forall>x \<in> set (solution_family v test_vec z). 0 \<le> x)"
    by auto
  from feas [of L] le have "\<forall>x \<in> set (solution_family v' test_vec (L - s)). 0 \<le> x"
    by (simp add: fam)
  from interval_exists [OF len' this] obtain zl zh
    where int': "feasible_z_interval v' test_vec = Inr (Some zl, Some zh)" by blast
  from interval_tight [OF len' int'] have le': "zl \<le> zh"
    and feas': "\<And>z. (zl \<le> z \<and> z \<le> zh) \<longleftrightarrow> (\<forall>x \<in> set (solution_family v' test_vec z). 0 \<le> x)"
    by auto
  have both: "(zl \<le> z \<and> z \<le> zh) \<longleftrightarrow> (L \<le> s + z \<and> s + z \<le> H)" for z
    by (simp only: feas' feas fam)
  from both [of zl] le' have "L \<le> s + zl" by simp
  moreover from both [of "L - s"] le have "zl \<le> L - s" by simp
  moreover from both [of zh] le' have "s + zh \<le> H" by simp
  moreover from both [of "H - s"] le have "H - s \<le> zh" by simp
  ultimately have "zl = L - s" "zh = H - s" by simp_all
  with int' show ?thesis by (simp add: v'_def)
qed

lemma entropy_drops:
  assumes len: "length q = 8" and pos: "\<forall>x \<in> set q. 0 < x"
    and nonneg: "\<forall>x \<in> set (solution_family q test_vec u). 0 \<le> x"
    and u: "u \<noteq> 0" and dir: "0 \<le> u * dot test_vec (map (log 2) q)"
  shows "entropy (solution_family q test_vec u) < entropy q"
proof -
  have "0 < sum_list q" using len pos by (rule positive_sum)
  with dir have "0 \<le> u * dot test_vec (map (log 2) q) / sum_list q" by simp
  with entropy_tangent [OF len pos nonneg u] show ?thesis by simp
qed

lemma log_gradient_sign:
  assumes "0 < a" "0 < b" "0 < c" "0 < d" "0 < e" "0 < f'" "0 < g'" "0 < h"
  shows "b * c * e * h \<le> a * d * f' * g' \<Longrightarrow> 0 \<le> dot test_vec (map (log 2) [a, b, c, d, e, f', g', h])"
    and "a * d * f' * g' \<le> b * c * e * h \<Longrightarrow> dot test_vec (map (log 2) [a, b, c, d, e, f', g', h]) \<le> 0"
proof -
  have X: "0 < a * d * f' * g'" and Y: "0 < b * c * e * h" using assms by simp_all
  note eq = log_orthogonal_product [OF assms]
  show "0 \<le> dot test_vec (map (log 2) [a, b, c, d, e, f', g', h])" if "b * c * e * h \<le> a * d * f' * g'"
    unfolding eq using that X Y by simp
  show "dot test_vec (map (log 2) [a, b, c, d, e, f', g', h]) \<le> 0" if "a * d * f' * g' \<le> b * c * e * h"
    unfolding eq using that X Y by simp
qed


lemma shown_mix_family:
  "solution_family shown_solution test_vec (z * (- 3094987 / 80000000) + (1 - z) * (- 2958367 / 80000000))
     = shown_mix z"
  by (simp add: shown_solution_def family_entries shown_mix_def) (simp add: field_simps)

lemma shown_maxent_dist:
  "maxent_dist z (solution_family shown_solution test_vec (- 3094987 / 80000000))
       (solution_family shown_solution test_vec (- 2958367 / 80000000))
     = shown_mix z"
proof -
  have "length shown_solution = 8" by (simp add: shown_solution_def)
  from mix_family [OF this] show ?thesis by (simp only: shown_mix_family)
qed

lemma shown_mix_step:
  "shown_mix z = solution_family (shown_mix z0) test_vec (- (68310 / 40000000) * (z - z0))"
  by (simp add: shown_mix_def family_entries) (simp add: field_simps)

lemma shown_mix_nonneg:
  assumes "0 \<le> z" "z \<le> 1"
  shows "\<forall>x \<in> set (shown_mix z). 0 \<le> x"
  using assms by (simp add: shown_mix_def)

lemma shown_mix_near:
  assumes "4 / 5 \<le> z" "z \<le> 43 / 50"
  shows "within_tolerance (1 / 10 ^ 4) (shown_mix z) maxent_shown"
  using assms
  by (simp add: within_tolerance_def shown_mix_def maxent_shown_def abs_less_iff field_simps)

lemma shown_mix_left:
  assumes "0 \<le> z" "z < 4 / 5"
  shows "entropy (shown_mix z) < entropy (shown_mix (4 / 5))"
proof -
  let ?u = "- (68310 / 40000000) * (z - 4 / 5)"
  have len: "length (shown_mix (4 / 5)) = 8" by (simp add: shown_mix_def)
  have pos: "\<forall>x \<in> set (shown_mix (4 / 5)). 0 < x" by (simp add: shown_mix_def)
  have nn: "\<forall>x \<in> set (solution_family (shown_mix (4 / 5)) test_vec ?u). 0 \<le> x"
    unfolding shown_mix_step [symmetric] using assms by (intro shown_mix_nonneg) simp_all
  have u: "?u \<noteq> 0" "0 \<le> ?u" using assms by simp_all
  have "0 \<le> dot test_vec (map (log 2) (shown_mix (4 / 5)))"
    unfolding shown_mix_def by (rule log_gradient_sign(1)) simp_all
  with u(2) have dir: "0 \<le> ?u * dot test_vec (map (log 2) (shown_mix (4 / 5)))"
    by (rule mult_nonneg_nonneg)
  from entropy_drops [OF len pos nn u(1) dir] show ?thesis
    by (simp only: shown_mix_step [symmetric])
qed

lemma shown_mix_right:
  assumes "43 / 50 < z" "z \<le> 1"
  shows "entropy (shown_mix z) < entropy (shown_mix (43 / 50))"
proof -
  let ?u = "- (68310 / 40000000) * (z - 43 / 50)"
  have len: "length (shown_mix (43 / 50)) = 8" by (simp add: shown_mix_def)
  have pos: "\<forall>x \<in> set (shown_mix (43 / 50)). 0 < x" by (simp add: shown_mix_def)
  have nn: "\<forall>x \<in> set (solution_family (shown_mix (43 / 50)) test_vec ?u). 0 \<le> x"
    unfolding shown_mix_step [symmetric] using assms by (intro shown_mix_nonneg) simp_all
  have u: "?u \<noteq> 0" "?u \<le> 0" using assms by simp_all
  have "dot test_vec (map (log 2) (shown_mix (43 / 50))) \<le> 0"
    unfolding shown_mix_def by (rule log_gradient_sign(2)) simp_all
  with u(2) have dir: "0 \<le> ?u * dot test_vec (map (log 2) (shown_mix (43 / 50)))"
    by (rule mult_nonpos_nonpos)
  from entropy_drops [OF len pos nn u(1) dir] show ?thesis
    by (simp only: shown_mix_step [symmetric])
qed

lemma shown_far_drops:
  assumes "0 \<le> z" "z \<le> 1"
    and "\<not> within_tolerance (1 / 10 ^ 4) (shown_mix z) maxent_shown"
  shows "entropy (shown_mix z) < max (entropy (shown_mix (4 / 5))) (entropy (shown_mix (43 / 50)))"
proof -
  from assms(3) shown_mix_near [of z] have "\<not> (4 / 5 \<le> z \<and> z \<le> 43 / 50)" by blast
  then have "z < 4 / 5 \<or> 43 / 50 < z" by linarith
  then show ?thesis
  proof
    assume "z < 4 / 5"
    with assms(1) have "entropy (shown_mix z) < entropy (shown_mix (4 / 5))"
      by (rule shown_mix_left)
    then show ?thesis by simp
  next
    assume "43 / 50 < z"
    from this assms(2) have "entropy (shown_mix z) < entropy (shown_mix (43 / 50))"
      by (rule shown_mix_right)
    then show ?thesis by simp
  qed
qed

lemma shown_sum: "sum_list shown_solution = 1"
  by (simp add: shown_solution_def)

lemma shown_residual:
  "residual_norm margin_transform
     (estimated_proportions d1_shown d2_shown (dxe (d1a d1_shown) (d2a d2_shown)))
     (solution_family shown_solution test_vec s) < 1 / 10 ^ 6"
proof -
  have "sum_list (map (\<lambda>r. r\<^sup>2) (map2 (-)
      (mat_vec margin_transform (solution_family shown_solution test_vec s))
      (estimated_proportions d1_shown d2_shown (dxe (d1a d1_shown) (d2a d2_shown)))))
    = 8 * (1 / 40000000)\<^sup>2"
    unfolding shown_estimate
    by (simp add: shown_solution_def family_entries mat_vec_margin power2_eq_square)
  also have "\<dots> < (1 / 10 ^ 6)\<^sup>2" by (simp add: power2_eq_square)
  finally show ?thesis
    unfolding residual_norm_def by (intro real_less_lsqrt) simp_all
qed

lemma shown_example:
  assumes qr: "qr_solution margin_transform
      (estimated_proportions d1_shown d2_shown (dxe (d1a d1_shown) (d2a d2_shown))) v"
  shows "\<exists>z_lo z_hi. feasible_z_interval v test_vec = Inr (Some z_lo, Some z_hi)
     \<and> (\<forall>z. maxent_dist z (solution_family v test_vec z_lo) (solution_family v test_vec z_hi)
            = shown_mix z)
     \<and> (\<exists>z_opt. optimize_maximum
            (\<lambda>z. entropy (maxent_dist z (solution_family v test_vec z_lo) (solution_family v test_vec z_hi)))
            0 1 z_opt)"
    and "residual_norm margin_transform
      (estimated_proportions d1_shown d2_shown (dxe (d1a d1_shown) (d2a d2_shown))) v < 1 / 10 ^ 6"
proof -
  let ?L = "- 3094987 / 80000000 :: real"
  let ?H = "- 2958367 / 80000000 :: real"
  have len0: "length shown_solution = 8" by (simp add: shown_solution_def)
  from qr_solution_family [OF qr shown_solution_qr] obtain s
    where v: "v = solution_family shown_solution test_vec s" ..
  have len: "length v = 8" using qr by (rule qr_solution_length)
  have int: "feasible_z_interval v test_vec = Inr (Some (?L - s), Some (?H - s))"
    unfolding v using len0 shown_interval by (rule segment_of_family)
  have e1: "solution_family v test_vec (?L - s) = solution_family shown_solution test_vec ?L"
    unfolding v using family_compose [OF len0, of s "?L - s"] by simp
  have e2: "solution_family v test_vec (?H - s) = solution_family shown_solution test_vec ?H"
    unfolding v using family_compose [OF len0, of s "?H - s"] by simp
  have mix: "maxent_dist z (solution_family v test_vec (?L - s)) (solution_family v test_vec (?H - s))
      = shown_mix z" for z
    by (simp only: e1 e2 shown_maxent_dist)
  have "0 < sum_list v"
    unfolding v sum_list_family [OF len0] by (simp add: shown_sum)
  from segment_maximum_exists [OF len int this] int mix
  show "\<exists>z_lo z_hi. feasible_z_interval v test_vec = Inr (Some z_lo, Some z_hi)
     \<and> (\<forall>z. maxent_dist z (solution_family v test_vec z_lo) (solution_family v test_vec z_hi)
            = shown_mix z)
     \<and> (\<exists>z_opt. optimize_maximum
            (\<lambda>z. entropy (maxent_dist z (solution_family v test_vec z_lo) (solution_family v test_vec z_hi)))
            0 1 z_opt)"
    by blast
  show "residual_norm margin_transform
      (estimated_proportions d1_shown d2_shown (dxe (d1a d1_shown) (d2a d2_shown))) v < 1 / 10 ^ 6"
    unfolding v by (rule shown_residual)
qed


text \<open>
  Claim C2. For the printed example (\<^verbatim>\<open>d1\<close>, \<^verbatim>\<open>d2\<close> as shown, joint table
  \<open>[0.14, 0.06, 0.56, 0.24]\<close>), whatever least-squares vector the QR solve
  returns: the residual is below \<open>1e-6\<close>, the interval exists, the entropy of the
  mix has a maximum on \<open>[0, 1]\<close>, and at every maximum that \<^verbatim>\<open>optimize\<close> may
  return \<^verbatim>\<open>maxent_dist\<close> is within \<open>1e-4\<close> of
  \<open>[0.05034, 0.00142, 0.55971, 0.23719, 0.08966, 0.05858, 0.00029, 0.00281]\<close>
  in every entry. More is true: every point of the segment that is not within
  that tolerance has a strictly smaller entropy than the mix at \<open>0.8\<close> or at
  \<open>0.86\<close>.
\<close>

theorem worked_example_maxent:
  assumes "qr_solution margin_transform
      (estimated_proportions d1_shown d2_shown (dxe (d1a d1_shown) (d2a d2_shown))) v"
    and "null_result margin_transform raw" and "ns raw = Inr n"
  shows "map snd (dxe (d1a d1_shown) (d2a d2_shown)) = [14 / 100, 6 / 100, 56 / 100, 24 / 100]
    \<and> residual_norm margin_transform
          (estimated_proportions d1_shown d2_shown (dxe (d1a d1_shown) (d2a d2_shown))) v < 1 / 10 ^ 6
    \<and> (\<exists>z_lo z_hi. feasible_z_interval v n = Inr (Some z_lo, Some z_hi)
        \<and> (\<exists>z_opt. optimize_maximum
              (\<lambda>z. entropy (maxent_dist z (solution_family v n z_lo) (solution_family v n z_hi)))
              0 1 z_opt)
        \<and> (\<forall>z_opt. optimize_maximum
              (\<lambda>z. entropy (maxent_dist z (solution_family v n z_lo) (solution_family v n z_hi)))
              0 1 z_opt
            \<longrightarrow> within_tolerance (1 / 10 ^ 4)
                  (maxent_dist z_opt (solution_family v n z_lo) (solution_family v n z_hi))
                  maxent_shown)
        \<and> (\<forall>z. 0 \<le> z \<and> z \<le> 1
              \<and> \<not> within_tolerance (1 / 10 ^ 4)
                  (maxent_dist z (solution_family v n z_lo) (solution_family v n z_hi)) maxent_shown
            \<longrightarrow> entropy (maxent_dist z (solution_family v n z_lo) (solution_family v n z_hi))
                < max (entropy (maxent_dist (4 / 5) (solution_family v n z_lo) (solution_family v n z_hi)))
                      (entropy (maxent_dist (43 / 50) (solution_family v n z_lo) (solution_family v n z_hi)))))"
proof -
  from ns_value [OF assms(2)] assms(3) have n: "n = test_vec" by simp
  have A: "map snd (dxe (d1a d1_shown) (d2a d2_shown)) = [14 / 100, 6 / 100, 56 / 100, 24 / 100]"
    by (simp only: shown_joint) simp
  note B = shown_example(2) [OF assms(1)]
  from shown_example(1) [OF assms(1)] obtain z_lo z_hi z0
    where int: "feasible_z_interval v test_vec = Inr (Some z_lo, Some z_hi)"
      and mix: "\<And>z. maxent_dist z (solution_family v test_vec z_lo) (solution_family v test_vec z_hi)
            = shown_mix z"
      and ex: "optimize_maximum
            (\<lambda>z. entropy (maxent_dist z (solution_family v test_vec z_lo) (solution_family v test_vec z_hi)))
            0 1 z0"
    by blast
  let ?mix = "\<lambda>z. maxent_dist z (solution_family v test_vec z_lo) (solution_family v test_vec z_hi)"
  have far: "entropy (?mix z) < max (entropy (?mix (4 / 5))) (entropy (?mix (43 / 50)))"
    if "0 \<le> z \<and> z \<le> 1 \<and> \<not> within_tolerance (1 / 10 ^ 4) (?mix z) maxent_shown" for z
    using that shown_far_drops [of z] by (simp add: mix)
  have near: "within_tolerance (1 / 10 ^ 4) (?mix z_opt) maxent_shown"
    if opt: "optimize_maximum (\<lambda>z. entropy (?mix z)) 0 1 z_opt" for z_opt
  proof (rule ccontr)
    assume not: "\<not> within_tolerance (1 / 10 ^ 4) (?mix z_opt) maxent_shown"
    from opt have z: "0 \<le> z_opt" "z_opt \<le> 1"
      and best: "\<And>z'. 0 \<le> z' \<and> z' \<le> 1 \<Longrightarrow> entropy (?mix z') \<le> entropy (?mix z_opt)"
      by (simp_all add: optimize_maximum_def)
    from best [of "4 / 5"] best [of "43 / 50"]
    have "max (entropy (?mix (4 / 5))) (entropy (?mix (43 / 50))) \<le> entropy (?mix z_opt)"
      by simp
    with far [of z_opt] z not show False by simp
  qed
  from A B int ex near far show ?thesis
    unfolding n by blast
qed

theorem worked_example_maxent_witness:
  "\<exists>z_opt.
      optimize_maximum
        (\<lambda>z. entropy (maxent_dist z
           (solution_family shown_solution [1, - 1, - 1, 1, - 1, 1, 1, - 1] (- 3094987 / 80000000))
           (solution_family shown_solution [1, - 1, - 1, 1, - 1, 1, 1, - 1] (- 2958367 / 80000000))))
        0 1 z_opt
      \<and> within_tolerance (1 / 10 ^ 4)
          (maxent_dist z_opt
             (solution_family shown_solution [1, - 1, - 1, 1, - 1, 1, 1, - 1] (- 3094987 / 80000000))
             (solution_family shown_solution [1, - 1, - 1, 1, - 1, 1, 1, - 1] (- 2958367 / 80000000)))
          [5034 / 100000, 142 / 100000, 55971 / 100000, 23719 / 100000,
           8966 / 100000, 5858 / 100000, 29 / 100000, 281 / 100000]"
proof -
  let ?n = "[1, - 1, - 1, 1, - 1, 1, 1, - 1 :: real]"
  have n: "?n = test_vec" by (simp add: test_vec_value)
  have h: "null_result margin_transform ?n"
    by (simp add: null_result_def mat_vec_margin margin_transform_rows margin_transform_length replicate_12)
  have e: "ns ?n = Inr ?n"
    by (simp add: ns_def mean_def)
  from worked_example_maxent [OF shown_solution_qr h e] obtain z_lo z_hi z_opt
    where int: "feasible_z_interval shown_solution ?n = Inr (Some z_lo, Some z_hi)"
      and opt: "optimize_maximum
        (\<lambda>z. entropy (maxent_dist z (solution_family shown_solution ?n z_lo)
           (solution_family shown_solution ?n z_hi))) 0 1 z_opt"
      and near: "within_tolerance (1 / 10 ^ 4)
          (maxent_dist z_opt (solution_family shown_solution ?n z_lo)
             (solution_family shown_solution ?n z_hi)) maxent_shown"
    by blast
  from int have "z_lo = - 3094987 / 80000000" "z_hi = - 2958367 / 80000000"
    by (simp_all add: n shown_interval)
  with opt near show ?thesis
    by (auto simp: maxent_shown_def)
qed

subsection \<open>Inconsistent observations\<close>












end
